theory Spec2Isabelle
  imports Complex_Main "HOL-Library.Monad_Syntax"
begin

section \<open>The audio synchronisation core of music\_visualizer (AudioProcess.h)\<close>

text \<open>
  The C++ class \<open>AudioProcess\<close> keeps a circular capture buffer of \<open>TBL\<close> frames per
  channel, a write cursor, one read cursor per channel, and a 60 Hz pacing target.
  This theory embeds its index arithmetic, the wavelength advance, the cross-correlation
  scan, the constructor's checks and the pacing logic of \<open>step\<close>.

  C++ \<open>int\<close> values are modelled by \<open>int\<close>. Every value the program computes from
  cursors, wave lengths and the buffer size stays far inside the 32-bit range
  (\<open>TBL = 8192\<close>), so no wrap-around is written out. C++ \<open>float\<close> values are modelled
  by their exact values, with every operation rounded to single precision.
\<close>

subsection \<open>Constants\<close>

definition VISUALIZER_BUFSIZE :: int where "VISUALIZER_BUFSIZE = 1024"
definition SR :: int where "SR = 48000"
definition SRF :: int where "SRF = SR div 2"
definition ABL :: int where "ABL = 512"
definition ABN :: int where "ABN = 16"
definition TBL :: int where "TBL = ABL * ABN"
definition FFTLEN :: int where "FFTLEN = TBL div 2"
definition VL :: int where "VL = VISUALIZER_BUFSIZE"
definition HISTORY_NUM_FRAMES :: int where "HISTORY_NUM_FRAMES = 7"
definition HISTORY_SEARCH_RANGE :: int where "HISTORY_SEARCH_RANGE = 350"
definition HISTORY_SEARCH_GRANULARITY :: int where "HISTORY_SEARCH_GRANULARITY = 3"
definition HISTORY_BUFF_SZ :: int where "HISTORY_BUFF_SZ = VL"

lemmas const_defs =
  VISUALIZER_BUFSIZE_def SR_def SRF_def ABL_def ABN_def TBL_def FFTLEN_def VL_def
  HISTORY_NUM_FRAMES_def HISTORY_SEARCH_RANGE_def HISTORY_SEARCH_GRANULARITY_def
  HISTORY_BUFF_SZ_def

text \<open>C++ integer division truncates toward zero; \<open>div\<close> of HOL rounds down.\<close>

definition cdiv :: "int \<Rightarrow> int \<Rightarrow> int" where
  "cdiv a b = sgn a * sgn b * (\<bar>a\<bar> div \<bar>b\<bar>)"

subsection \<open>Index arithmetic\<close>

definition move_index :: "int \<Rightarrow> int \<Rightarrow> int \<Rightarrow> int" where
  "move_index p delta tbl =
     (let p1 = p + delta
      in if p1 \<ge> tbl then p1 - tbl
         else if p1 < 0 then p1 + tbl
         else p1)"

definition dist_forward :: "int \<Rightarrow> int \<Rightarrow> int \<Rightarrow> int" where
  "dist_forward from to tbl =
     (let d = to - from
      in if d < 0 then d + tbl else d)"

definition dist_backward :: "int \<Rightarrow> int \<Rightarrow> int \<Rightarrow> int" where
  "dist_backward from to tbl = dist_forward to from tbl"

subsection \<open>Single-precision arithmetic\<close>

text \<open>
  A \<open>float\<close> is an IEEE 754 binary32 number: NaN, an infinity, or a finite number, kept
  as its exact real value. The two zeros are not told apart (\<open>Fin 0\<close> stands for both);
  the sign of a zero shows only when one divides by it, and the one divisor that can be
  zero in the code below, \<^verbatim>\<open>a - 2 * b + g + 0.001f\<close>, is then \<open>+0\<close>.

  \<open>round32\<close> rounds a real number to the nearest binary32 number, ties to the even
  significand: \<open>float_expo x\<close> is the binary exponent of \<open>x\<close>, not below that of the
  smallest normal number (so that subnormal numbers are multiples of \<open>2^-149\<close>), found by
  scanning down from 127; the unit in the last place is \<open>2^(float_expo x - 23)\<close>.
  \<open>fl_round\<close> is the result of an operation whose exact result is \<open>x\<close>: the rounded
  number, or an infinity when that is beyond the largest finite number.
\<close>

definition pow2 :: "int \<Rightarrow> real" where
  "pow2 e = (if 0 \<le> e then 2 ^ nat e else 1 / 2 ^ nat (- e))"

function expo_from :: "int \<Rightarrow> real \<Rightarrow> int" where
  "expo_from e x =
     (if e \<le> - 126 then - 126 else if pow2 e \<le> x then e else expo_from (e - 1) x)"
  by pat_completeness auto
termination
  by (relation "measure (\<lambda>(e, x). nat (e + 126))") auto

declare expo_from.simps [simp del]

definition float_expo :: "real \<Rightarrow> int" where
  "float_expo x = expo_from 127 \<bar>x\<bar>"

definition round_even :: "real \<Rightarrow> int" where
  "round_even y =
     (let f = \<lfloor>y\<rfloor>; d = y - of_int f
      in if d < 1 / 2 then f
         else if 1 / 2 < d then f + 1
         else if even f then f else f + 1)"

definition round32 :: "real \<Rightarrow> real" where
  "round32 x = (let u = pow2 (float_expo x - 23) in of_int (round_even (x / u)) * u)"

datatype fl = NaN | MInf | Fin real | PInf

definition fl_round :: "real \<Rightarrow> fl" where
  "fl_round x =
     (let r = round32 x
      in if \<bar>r\<bar> < pow2 128 then Fin r else if r < 0 then MInf else PInf)"

text \<open>
  The comparisons \<^verbatim>\<open>>\<close> and \<^verbatim>\<open><\<close> are false whenever an operand is NaN.
  \<open>fl_max\<close> is \<open>std::max\<close>, which returns \<^verbatim>\<open>(a < b) ? b : a\<close>.
\<close>

fun fl_gt :: "fl \<Rightarrow> fl \<Rightarrow> bool" where
  "fl_gt NaN y = False"
| "fl_gt x NaN = False"
| "fl_gt MInf y = False"
| "fl_gt (Fin x) MInf = True"
| "fl_gt (Fin x) (Fin y) = (y < x)"
| "fl_gt (Fin x) PInf = False"
| "fl_gt PInf PInf = False"
| "fl_gt PInf y = True"

definition fl_lt :: "fl \<Rightarrow> fl \<Rightarrow> bool" where
  "fl_lt x y = fl_gt y x"

definition fl_max :: "fl \<Rightarrow> fl \<Rightarrow> fl" where
  "fl_max a b = (if fl_lt a b then b else a)"

fun fl_neg :: "fl \<Rightarrow> fl" where
  "fl_neg NaN = NaN"
| "fl_neg MInf = PInf"
| "fl_neg (Fin x) = Fin (- x)"
| "fl_neg PInf = MInf"

fun fl_add :: "fl \<Rightarrow> fl \<Rightarrow> fl" where
  "fl_add NaN y = NaN"
| "fl_add x NaN = NaN"
| "fl_add PInf MInf = NaN"
| "fl_add MInf PInf = NaN"
| "fl_add PInf y = PInf"
| "fl_add x PInf = PInf"
| "fl_add MInf y = MInf"
| "fl_add x MInf = MInf"
| "fl_add (Fin x) (Fin y) = fl_round (x + y)"

definition fl_sub :: "fl \<Rightarrow> fl \<Rightarrow> fl" where
  "fl_sub x y = fl_add x (fl_neg y)"

fun fl_mul :: "fl \<Rightarrow> fl \<Rightarrow> fl" where
  "fl_mul NaN y = NaN"
| "fl_mul x NaN = NaN"
| "fl_mul (Fin x) (Fin y) = fl_round (x * y)"
| "fl_mul (Fin x) y = (if x = 0 then NaN else if 0 < x then y else fl_neg y)"
| "fl_mul x (Fin y) = (if y = 0 then NaN else if 0 < y then x else fl_neg x)"
| "fl_mul PInf y = y"
| "fl_mul MInf y = fl_neg y"

fun fl_div :: "fl \<Rightarrow> fl \<Rightarrow> fl" where
  "fl_div NaN y = NaN"
| "fl_div x NaN = NaN"
| "fl_div (Fin x) (Fin y) =
     (if y = 0 then (if x = 0 then NaN else if 0 < x then PInf else MInf)
      else fl_round (x / y))"
| "fl_div (Fin x) y = Fin 0"
| "fl_div x (Fin y) = (if 0 \<le> y then x else fl_neg x)"
| "fl_div x y = NaN"

text \<open>
  The conversion \<^verbatim>\<open>int(x)\<close> of a float truncates toward zero. It is undefined for NaN,
  for an infinity and for a number outside the range of \<open>int\<close>; the model returns 0
  there.
\<close>

definition trunc_int :: "real \<Rightarrow> int" where
  "trunc_int x = (if 0 \<le> x then \<lfloor>x\<rfloor> else \<lceil>x\<rceil>)"

definition float_to_int :: "fl \<Rightarrow> int" where
  "float_to_int q =
     (case q of
        Fin x \<Rightarrow> (if - (2 ^ 31) \<le> trunc_int x \<and> trunc_int x < 2 ^ 31 then trunc_int x else 0)
      | _ \<Rightarrow> 0)"

subsection \<open>Reader advance (wavelength lock)\<close>

text \<open>
  \<open>advance_index\<close> starts with \<^verbatim>\<open>int wave_len = int(SR / freq + .5f)\<close>: the \<open>int\<close> \<open>SR\<close>
  is converted to float, the quotient and the sum are rounded to single precision, and
  the conversion to \<open>int\<close> truncates. The frequency is a finite float, given by its
  exact value. Where the conversion is undefined (a frequency of 0, or one so small
  that the quotient is infinite or beyond the range of \<open>int\<close>) the wave length of the
  model is 0, which every statement below excludes.
\<close>

definition wave_length :: "real \<Rightarrow> int" where
  "wave_length freq =
     float_to_int (fl_add (fl_div (fl_round (of_int SR)) (Fin freq)) (fl_round (1 / 2)))"

text \<open>
  The loop \<^verbatim>\<open>while (dist_forward(r, w, tbl) < VL) r = move_index(r, wave_len, tbl);\<close>
  may run forever, so it is a partial function: \<open>None\<close> is "never returns".
\<close>

partial_function (option) advance_index_loop :: "int \<Rightarrow> int \<Rightarrow> int \<Rightarrow> int \<Rightarrow> int option" where
  "advance_index_loop w r wave_len tbl =
     (if dist_forward r w tbl < VL
      then advance_index_loop w (move_index r wave_len tbl) wave_len tbl
      else Some r)"

definition advance_index :: "int \<Rightarrow> int \<Rightarrow> real \<Rightarrow> int \<Rightarrow> int option" where
  "advance_index w r freq tbl =
     (let wave_len = wave_length freq
      in advance_index_loop w (move_index r wave_len tbl) wave_len tbl)"

subsection \<open>Cross-correlation synchroniser\<close>

text \<open>
  In \<open>cross_correlation_sync\<close> the score of a candidate cursor \<open>r\<close> is the float
  \<^verbatim>\<open>md\<close> that the inner loop accumulates: the sum over the \<open>HISTORY_NUM_FRAMES\<close> history
  frames of \<open>reverse_dot_prod(buff, prev_buff[..], r, TBL, HISTORY_BUFF_SZ, channel_max)\<close>.
  The buffers do not change during the scan, so the score is a function of \<open>r\<close>; the
  model takes that function as the argument \<open>md\<close> in place of the buffers, the frame
  number and the channel maximum. \<open>xcorr_scan md n r max_r max_md\<close> is the state of the
  \<open>for\<close> loop with \<open>n\<close> iterations left.
\<close>

fun xcorr_scan :: "(int \<Rightarrow> fl) \<Rightarrow> nat \<Rightarrow> int \<Rightarrow> int \<Rightarrow> fl \<Rightarrow> int" where
  "xcorr_scan md 0 r max_r max_md = max_r"
| "xcorr_scan md (Suc n) r max_r max_md =
     (if fl_gt (md r) max_md
      then xcorr_scan md n (move_index r HISTORY_SEARCH_GRANULARITY TBL) r (md r)
      else xcorr_scan md n (move_index r HISTORY_SEARCH_GRANULARITY TBL) max_r max_md)"

definition cross_correlation_sync :: "int \<Rightarrow> int \<Rightarrow> int \<Rightarrow> (int \<Rightarrow> fl) \<Rightarrow> int" where
  "cross_correlation_sync w r dist' md =
     (let r0 = move_index r (cdiv (- dist') 2) TBL
      in xcorr_scan md (nat (cdiv dist' HISTORY_SEARCH_GRANULARITY)) r0 r0 MInf)"

subsection \<open>Spectral peak\<close>

text \<open>
  \<open>max_bin\<close> and \<open>max_frequency\<close> read the bins only through their magnitudes
  \<open>std::abs(f[i])\<close>; the model takes the array of magnitudes, \<open>mag i\<close> for bin \<open>i\<close>.
  \<open>max_bin_loop mag i mx max_i\<close> is the \<open>for\<close> loop of \<open>max_bin\<close> about to test index \<open>i\<close>.
\<close>

function max_bin_loop :: "(int \<Rightarrow> fl) \<Rightarrow> int \<Rightarrow> fl \<Rightarrow> int \<Rightarrow> int" where
  "max_bin_loop mag i mx max_i =
     (if i < 100
      then (if fl_gt (mag i) mx
            then max_bin_loop mag (i + 1) (mag i) i
            else max_bin_loop mag (i + 1) mx max_i)
      else max_i)"
  by pat_completeness auto
termination
  by (relation "measure (\<lambda>(mag, i, mx, max_i). nat (100 - i))") auto

declare max_bin_loop.simps [simp del]

definition max_bin :: "(int \<Rightarrow> fl) \<Rightarrow> int" where
  "max_bin mag = max_bin_loop mag 1 (fl_round 0) 0"

text \<open>
  The value \<^verbatim>\<open>kp * float(SRF) / float(FFTLEN)\<close> that \<open>max_frequency\<close> computes for the
  bin \<open>k\<close>, and \<open>max_frequency\<close> itself.
\<close>

definition interpolated_hz :: "(int \<Rightarrow> fl) \<Rightarrow> int \<Rightarrow> fl" where
  "interpolated_hz mag k =
     (let a = mag (k - 1);
          b = mag k;
          g = mag (k + 1);
          d = fl_div (fl_mul (fl_round (1 / 2)) (fl_sub a g))
                     (fl_add (fl_add (fl_sub a (fl_mul (fl_round 2) b)) g)
                             (fl_round (1 / 1000)));
          kp = fl_add (fl_round (of_int k)) d
      in fl_div (fl_mul kp (fl_round (of_int SRF))) (fl_round (of_int FFTLEN)))"

definition max_frequency :: "(int \<Rightarrow> fl) \<Rightarrow> fl" where
  "max_frequency mag =
     (let k0 = max_bin mag;
          k = (if k0 = 0 then 1 else k0)
      in fl_max (interpolated_hz mag k) (fl_round 10))"

text \<open>
  \<open>is_peak mag n k\<close>: among the bins \<open>1, \<dots>, n - 1\<close>, bin \<open>k\<close> is the first of greatest
  magnitude, where only magnitudes greater than 0 count and \<open>k = 0\<close> says that there is
  none. A NaN magnitude is neither greater nor smaller than any other.
\<close>

definition is_peak :: "(int \<Rightarrow> fl) \<Rightarrow> int \<Rightarrow> int \<Rightarrow> bool" where
  "is_peak mag n k =
     (0 \<le> k \<and> k < n
      \<and> (\<forall>j. 1 \<le> j \<and> j < n \<longrightarrow> \<not> fl_gt (mag j) (if k = 0 then Fin 0 else mag k))
      \<and> (k \<noteq> 0 \<longrightarrow> fl_gt (mag k) (Fin 0)
            \<and> (\<forall>j. 1 \<le> j \<and> j < k \<longrightarrow> mag j = NaN \<or> fl_gt (mag k) (mag j))))"

text \<open>
  Three arrays of magnitudes: a peak at bin 10 with unequal neighbours; a single faint
  bin 50 of magnitude \<open>0.0005f\<close>, all others 0; and a bin 0 that is larger than every other bin.
\<close>

definition mags_peak10 :: "int \<Rightarrow> fl" where
  "mags_peak10 i =
     (if i = 9 then Fin (1 / 4) else if i = 10 then Fin 1 else if i = 11 then Fin (1 / 2)
      else Fin 0)"

definition mags_faint50 :: "int \<Rightarrow> fl" where
  "mags_faint50 i = (if i = 50 then Fin (8589935 / 17179869184) else Fin 0)"

definition mags_dc :: "int \<Rightarrow> fl" where
  "mags_dc i = (if i = 0 then Fin 5 else if i = 1 then Fin 1 else if i = 2 then Fin 2 else Fin 0)"

subsection \<open>State, constructor and step\<close>

text \<open>
  The state holds the members that decide cursors and pacing. Time points and durations
  are integer ticks of the clock, taken as nanoseconds; \<open>dura60fps\<close> is the member
  \<^verbatim>\<open>_60fpsDura = dura(1.f / 60.f)\<close>, which for a nanosecond clock is 16666668 ticks
  (the float nearest to 1/60, times \<open>10^9\<close>, rounded to float).
  The sample buffers, the channel maxima, the FFT and the output sink are data the
  cursors do not depend on, except through two float results that \<open>step\<close> takes as
  inputs: the scores of the cross-correlation scan and the frequency
  \<open>get_harmonic_less_than(max_frequency(fft_out), 80.f)\<close> of each channel.
\<close>

record stream_info =
  sample_rate :: int
  max_buff_size :: int

record audio_options =
  ao_xcorr_sync :: bool
  ao_fft_sync :: bool
  ao_wave_smooth :: real

record state =
  wave_smoother :: real
  fft_sync :: bool
  xcorr_sync :: bool
  now_time :: int
  next_time :: int
  frame_id :: int
  writer :: int
  reader_l :: int
  reader_r :: int
  freq_l :: real
  freq_r :: real

datatype error = Exit int

definition dura60fps :: int where "dura60fps = 16666668"

definition milliseconds :: "int \<Rightarrow> int" where
  "milliseconds n = n * 1000000"

text \<open>
  The constructor. \<open>exit(1)\<close> is the error value \<open>Exit 1\<close>; \<open>initial_state\<close> collects the
  member initialisers and the assignments of the constructor's body.
\<close>

definition initial_state :: "audio_options \<Rightarrow> state" where
  "initial_state audio_options =
     \<lparr>wave_smoother = ao_wave_smooth audio_options,
      fft_sync = ao_fft_sync audio_options,
      xcorr_sync = ao_xcorr_sync audio_options,
      now_time = 0,
      next_time = 0 + dura60fps,
      frame_id = 0,
      writer = 0,
      reader_l = 0,
      reader_r = 0,
      freq_l = 60,
      freq_r = 60\<rparr>"

definition AudioProcess :: "stream_info \<Rightarrow> audio_options \<Rightarrow> error + state" where
  "AudioProcess audio_stream audio_options =
     (if sample_rate audio_stream \<noteq> 48000 then Inl (Exit 1)
      else if max_buff_size audio_stream < ABL then Inl (Exit 1)
      else Inr (initial_state audio_options))"

record step_in =
  clock_now :: int
  md_l :: "int \<Rightarrow> fl"
  md_r :: "int \<Rightarrow> fl"
  harmonic_l :: real
  harmonic_r :: real

text \<open>The body of \<^verbatim>\<open>if (now_time > next_time) { ... }\<close> in \<open>step\<close>.\<close>

definition process_cycle :: "state \<Rightarrow> step_in \<Rightarrow> state option" where
  "process_cycle s inp = do {
     rl \<leftarrow> advance_index (writer s) (reader_l s) (freq_l s) TBL;
     rr \<leftarrow> advance_index (writer s) (reader_r s) (freq_r s) TBL;
     let s1 = s\<lparr>reader_l := rl, reader_r := rr\<rparr>;
     let s2 = (if xcorr_sync s1
               then s1\<lparr>reader_l := cross_correlation_sync (writer s1) (reader_l s1)
                                      HISTORY_SEARCH_RANGE (md_l inp),
                       reader_r := cross_correlation_sync (writer s1) (reader_r s1)
                                      HISTORY_SEARCH_RANGE (md_r inp)\<rparr>
               else s1);
     let s3 = (if fft_sync s2
               then s2\<lparr>freq_l := harmonic_l inp, freq_r := harmonic_r inp\<rparr>
               else s2\<lparr>freq_l := 60, freq_r := 60\<rparr>);
     Some (s3\<lparr>frame_id := frame_id s3 + 1, next_time := next_time s3 + dura60fps\<rparr>)
   }"

definition step :: "state \<Rightarrow> step_in \<Rightarrow> state option" where
  "step s inp =
     (let s1 = s\<lparr>writer := move_index (writer s) ABL TBL\<rparr>;
          s2 = s1\<lparr>now_time := clock_now inp\<rparr>;
          s3 = (if now_time s2 - next_time s2 > milliseconds 60
                then s2\<lparr>next_time := now_time s2 - milliseconds 1\<rparr>
                else s2)
      in if now_time s3 > next_time s3 then process_cycle s3 inp else Some s3)"

text \<open>Calling \<open>step\<close> once per input, in order.\<close>

fun steps :: "state \<Rightarrow> step_in list \<Rightarrow> state option" where
  "steps s [] = Some s"
| "steps s (inp # ins) = (case step s inp of None \<Rightarrow> None | Some s' \<Rightarrow> steps s' ins)"

text \<open>
  A run of the whole object: construction, then the calls of \<open>step\<close>. It ends in the
  exit code of a fatal termination, hangs in a loop that never returns, or is still
  running in some state.
\<close>

datatype outcome = Exited int | Hung | Running state

definition run :: "stream_info \<Rightarrow> audio_options \<Rightarrow> step_in list \<Rightarrow> outcome" where
  "run audio_stream audio_options ins =
     (case AudioProcess audio_stream audio_options of
        Inl (Exit code) \<Rightarrow> Exited code
      | Inr s \<Rightarrow> (case steps s ins of None \<Rightarrow> Hung | Some s' \<Rightarrow> Running s'))"

text \<open>Well-formed states and inputs: cursors inside the buffer, usable wave lengths.\<close>

definition valid_freq :: "real \<Rightarrow> bool" where
  "valid_freq f = (1 \<le> wave_length f \<and> wave_length f < TBL)"

definition state_ok :: "state \<Rightarrow> bool" where
  "state_ok s =
     (0 \<le> writer s \<and> writer s < TBL \<and> 0 \<le> reader_l s \<and> reader_l s < TBL
      \<and> 0 \<le> reader_r s \<and> reader_r s < TBL
      \<and> valid_freq (freq_l s) \<and> valid_freq (freq_r s))"

definition input_ok :: "step_in \<Rightarrow> bool" where
  "input_ok inp = (valid_freq (harmonic_l inp) \<and> valid_freq (harmonic_r inp))"

text \<open>
  The pacing target that \<open>step\<close> compares the clock reading \<open>now\<close> with: the old target,
  or \<open>now\<close> minus 1 ms when \<open>now\<close> is more than 60 ms past it.
\<close>

definition pace_target :: "state \<Rightarrow> int \<Rightarrow> int" where
  "pace_target s now =
     (if now - next_time s > milliseconds 60 then now - milliseconds 1 else next_time s)"

text \<open>
  The input of a call of \<open>step\<close> at clock reading \<open>t\<close> while the stream delivers
  silence: the capture buffers hold zeros, so every product in \<open>reverse_dot_prod\<close> is
  0 and every score is 0. (The frequency inputs are not read when \<open>fft_sync\<close> is off.)
\<close>

definition silent_in :: "int \<Rightarrow> step_in" where
  "silent_in t = \<lparr>clock_now = t, md_l = (\<lambda>_. Fin 0), md_r = (\<lambda>_. Fin 0),
                  harmonic_l = 60, harmonic_r = 60\<rparr>"

section \<open>Properties\<close>

subsection \<open>Single-precision arithmetic\<close>

lemmas f32_eval =
  float_expo_def expo_from.simps pow2_def round32_def round_even_def fl_round_def Let_def

lemmas wave_length_eval =
  wave_length_def float_to_int_def trunc_int_def SR_def f32_eval

lemma wave_length_60: "wave_length 60 = 800"
  by (simp add: wave_length_eval)

lemma wave_length_48: "wave_length 48 = 1000"
  by (simp add: wave_length_eval)

text \<open>
  The rounding is visible at ordinary frequencies: for the float \<open>0x429f99db\<close>
  (about 79.8 Hz) the exact value of \<open>SR / freq + 0.5\<close> is just below 602, and the
  single-precision sum is 602.
\<close>

lemma wave_length_rounded_sum: "wave_length (10459611 / 131072) = 602"
  by (simp add: wave_length_eval)

lemma trunc_exact_sum: "trunc_int (48000 / (10459611 / 131072) + 1 / 2) = 601"
  by (simp add: trunc_int_def)

lemma fl_round_0: "fl_round 0 = Fin 0"
  by (simp add: f32_eval)

lemma fl_round_10: "fl_round 10 = Fin 10"
  by (simp add: f32_eval)

lemma fl_gt_irrefl: "\<not> fl_gt x x"
  by (cases x) simp_all

lemma fl_gt_trans: "fl_gt a b \<Longrightarrow> fl_gt b c \<Longrightarrow> fl_gt a c"
  by (cases a; cases b; cases c) simp_all

lemma fl_gt_above: "fl_gt a m \<Longrightarrow> \<not> fl_gt b m \<Longrightarrow> b = NaN \<or> fl_gt a b"
  by (cases a; cases b; cases m) simp_all

lemma fl_gt_asym: "fl_gt a b \<Longrightarrow> \<not> fl_gt b a"
  by (cases a; cases b) simp_all

lemma fl_gt_NaN: "\<not> fl_gt NaN x" "\<not> fl_gt x NaN"
  by (cases x, simp_all)+

subsection \<open>Index arithmetic\<close>

lemma move_index_mod:
  assumes "0 < c" "- c \<le> p + d" "p + d < 2 * c"
  shows "move_index p d c = (p + d) mod c"
proof -
  consider "c \<le> p + d" | "p + d < 0" | "0 \<le> p + d" "p + d < c"
    by linarith
  then show ?thesis
  proof cases
    case 1
    have "(p + d) mod c = (p + d - c) mod c"
      by simp
    also have "\<dots> = p + d - c"
      using 1 assms by (intro mod_pos_pos_trivial) linarith+
    finally show ?thesis
      using 1 by (simp add: move_index_def Let_def)
  next
    case 2
    have "(p + d) mod c = (p + d + c) mod c"
      by simp
    also have "\<dots> = p + d + c"
      using 2 assms by (intro mod_pos_pos_trivial) linarith+
    finally show ?thesis
      using 2 assms by (simp add: move_index_def Let_def)
  next
    case 3
    then show ?thesis
      by (simp add: move_index_def Let_def)
  qed
qed

lemma move_index_range:
  assumes "0 < c" "- c \<le> p + d" "p + d < 2 * c"
  shows "0 \<le> move_index p d c \<and> move_index p d c < c"
  using assms by (simp add: move_index_mod)

lemma dist_forward_mod:
  assumes "0 \<le> a" "a < c" "0 \<le> b" "b < c"
  shows "dist_forward a b c = (b - a) mod c"
proof (cases "b - a < 0")
  case True
  have "(b - a) mod c = (b - a + c) mod c"
    by simp
  also have "\<dots> = b - a + c"
    using True assms by (intro mod_pos_pos_trivial) linarith+
  finally show ?thesis
    using True by (simp add: dist_forward_def Let_def)
next
  case False
  then show ?thesis
    using assms by (simp add: dist_forward_def Let_def)
qed

text \<open>
  Claim C9. For a capacity \<open>c > 0\<close> and positions \<open>a\<close>, \<open>b\<close> in \<open>[0, c)\<close>: the forward
  distance from a position to itself is 0; for distinct positions the forward and the
  backward distance add up to \<open>c\<close>; the backward distance is the forward distance with
  the arguments swapped; both are non-negative.
\<close>

theorem dist_forward_backward_laws:
  assumes "0 < c" "0 \<le> a" "a < c" "0 \<le> b" "b < c"
  shows "dist_forward a a c = 0
       \<and> (a \<noteq> b \<longrightarrow> dist_forward a b c + dist_backward a b c = c)
       \<and> dist_backward a b c = dist_forward b a c
       \<and> 0 \<le> dist_forward a b c
       \<and> 0 \<le> dist_backward a b c"
  using assms by (auto simp: dist_forward_def dist_backward_def Let_def)

theorem dist_forward_backward_laws_witness:
  "(0::int) < 8 \<and> (0::int) \<le> 5 \<and> (5::int) < 8 \<and> (0::int) \<le> 2 \<and> (2::int) < 8
   \<and> dist_forward 5 5 8 = 0
   \<and> (5::int) \<noteq> 2
   \<and> dist_forward 5 2 8 + dist_backward 5 2 8 = 8
   \<and> dist_backward 5 2 8 = dist_forward 2 5 8
   \<and> dist_forward 5 2 8 = 5
   \<and> dist_backward 5 2 8 = 3"
  using dist_forward_backward_laws [of 8 5 2]
  by (simp add: dist_forward_def dist_backward_def)

text \<open>
  Claim C3, as amended. \<open>move_index\<close> wraps once: for a capacity \<open>c > 0\<close>, a position
  \<open>p\<close> in \<open>[0, c)\<close> and a delta with \<open>- c \<le> p + delta < 2 * c\<close> (every delta with
  \<open>\<bar>delta\<bar> \<le> c\<close> is one), the result is \<open>(p + delta) mod c\<close> and lies in \<open>[0, c)\<close>.
\<close>

theorem move_index_single_wrap:
  assumes "0 < c" "0 \<le> p" "p < c" "- c \<le> p + delta" "p + delta < 2 * c"
  shows "move_index p delta c = (p + delta) mod c
       \<and> 0 \<le> move_index p delta c \<and> move_index p delta c < c"
  using assms move_index_mod [of c p delta] by simp

theorem move_index_single_wrap_witness:
  "(0::int) < 8192 \<and> (0::int) \<le> 100 \<and> (100::int) < 8192
   \<and> - 8192 \<le> (100::int) + (- 175) \<and> (100::int) + (- 175) < 2 * 8192
   \<and> move_index 100 (- 175) 8192 = (100 + (- 175)) mod 8192
   \<and> move_index 100 (- 175) 8192 = 8117"
  using move_index_single_wrap [of 8192 100 "- 175"]
  by (simp add: move_index_def)

text \<open>
  The claim as written (any delta, also one larger than the capacity) fails: a delta of
  twice the capacity is wrapped once only, and the result is the capacity itself.
\<close>

theorem move_index_large_delta_counterexample:
  "move_index 0 20 10 = 10
   \<and> move_index 0 20 10 \<noteq> (0 + 20) mod 10
   \<and> \<not> move_index 0 20 10 < 10"
  by (simp add: move_index_def)

subsection \<open>Reader advance\<close>

text \<open>
  The same at the float \<open>0x429f560b\<close> (about 79.67 Hz), whose wave length is 603 (the
  exact sum truncates to 602): from cursor 0 the reader moves to 603.
\<close>

lemma advance_index_rounded_wave_length:
  "wave_length (10442251 / 131072) = 603
   \<and> advance_index 4096 0 (10442251 / 131072) TBL = Some 603"
proof -
  have wl: "wave_length (10442251 / 131072) = 603"
    by (simp add: wave_length_eval)
  then show ?thesis
    by (simp add: advance_index_def const_defs move_index_def dist_forward_def
        advance_index_loop.simps)
qed

lemma loop_stuck:
  assumes "advance_index_loop w0 r0 wl0 tbl0 = Some y0"
  shows "\<not> (w0 = 1023 \<and> wl0 = 1000 \<and> tbl0 = 2000 \<and> (r0 = 0 \<or> r0 = 1000))"
proof (rule advance_index_loop.raw_induct
    [where P = "\<lambda>w r wl tbl y. \<not> (w = 1023 \<and> wl = 1000 \<and> tbl = 2000 \<and> (r = 0 \<or> r = 1000))",
     OF _ assms])
  fix f :: "int \<Rightarrow> int \<Rightarrow> int \<Rightarrow> int \<Rightarrow> int option" and w r wl tbl y
  assume IH: "\<And>w r wl tbl y. f w r wl tbl = Some y \<Longrightarrow>
                \<not> (w = 1023 \<and> wl = 1000 \<and> tbl = 2000 \<and> (r = 0 \<or> r = 1000))"
    and body: "(if dist_forward r w tbl < VL then f w (move_index r wl tbl) wl tbl else Some r) = Some y"
  show "\<not> (w = 1023 \<and> wl = 1000 \<and> tbl = 2000 \<and> (r = 0 \<or> r = 1000))"
  proof
    assume a: "w = 1023 \<and> wl = 1000 \<and> tbl = 2000 \<and> (r = 0 \<or> r = 1000)"
    then have "dist_forward r w tbl < VL"
      by (auto simp: dist_forward_def VL_def VISUALIZER_BUFSIZE_def)
    with body have "f w (move_index r wl tbl) wl tbl = Some y"
      by simp
    from IH[OF this]
    have n: "\<not> (w = 1023 \<and> wl = 1000 \<and> tbl = 2000
                \<and> (move_index r wl tbl = 0 \<or> move_index r wl tbl = 1000))" .
    from a have "move_index r wl tbl = 0 \<or> move_index r wl tbl = 1000"
      by (auto simp: move_index_def)
    with n a show False
      by blast
  qed
qed

lemma move_index_step:
  assumes "0 < c" "0 \<le> wl" "wl < c"
  shows "move_index ((r + k * wl) mod c) wl c = (r + (k + 1) * wl) mod c"
proof -
  have "0 \<le> (r + k * wl) mod c" "(r + k * wl) mod c < c"
    using assms(1) by simp_all
  then have "move_index ((r + k * wl) mod c) wl c = ((r + k * wl) mod c + wl) mod c"
    using assms by (intro move_index_mod) linarith+
  also have "\<dots> = (r + k * wl + wl) mod c"
    by (simp add: mod_add_left_eq)
  also have "r + k * wl + wl = r + (k + 1) * wl"
    by (simp add: algebra_simps)
  finally show ?thesis .
qed

lemma loop_reaches:
  assumes "0 < c" "0 \<le> wl" "wl < c"
  shows "VL \<le> dist_forward ((r + (k + int n) * wl) mod c) w c \<Longrightarrow>
     \<exists>m. 0 \<le> m \<and> m \<le> int n
       \<and> advance_index_loop w ((r + k * wl) mod c) wl c = Some ((r + (k + m) * wl) mod c)
       \<and> VL \<le> dist_forward ((r + (k + m) * wl) mod c) w c"
proof (induction n arbitrary: k)
  case 0
  then have "advance_index_loop w ((r + k * wl) mod c) wl c = Some ((r + k * wl) mod c)"
    by (subst advance_index_loop.simps) simp
  with 0 show ?case
    by (intro exI[of _ 0]) simp
next
  case (Suc n)
  show ?case
  proof (cases "dist_forward ((r + k * wl) mod c) w c < VL")
    case False
    then have "advance_index_loop w ((r + k * wl) mod c) wl c = Some ((r + k * wl) mod c)"
      by (subst advance_index_loop.simps) simp
    with False show ?thesis
      by (intro exI[of _ 0]) simp
  next
    case True
    have "VL \<le> dist_forward ((r + (k + 1 + int n) * wl) mod c) w c"
      using Suc.prems by (simp add: algebra_simps)
    from Suc.IH[OF this] obtain m where m: "0 \<le> m" "m \<le> int n"
      "advance_index_loop w ((r + (k + 1) * wl) mod c) wl c = Some ((r + (k + 1 + m) * wl) mod c)"
      "VL \<le> dist_forward ((r + (k + 1 + m) * wl) mod c) w c"
      by blast
    have eq: "k + 1 + m = k + (m + 1)"
      by simp
    have "advance_index_loop w ((r + k * wl) mod c) wl c
        = advance_index_loop w (move_index ((r + k * wl) mod c) wl c) wl c"
      using True by (subst advance_index_loop.simps) simp
    also have "\<dots> = advance_index_loop w ((r + (k + 1) * wl) mod c) wl c"
      by (simp only: move_index_step[OF assms])
    also have "\<dots> = Some ((r + (k + (m + 1)) * wl) mod c)"
      using m(3) by (simp only: eq)
    finally have "advance_index_loop w ((r + k * wl) mod c) wl c
        = Some ((r + (k + (m + 1)) * wl) mod c)" .
    moreover have "VL \<le> dist_forward ((r + (k + (m + 1)) * wl) mod c) w c"
      using m(4) by (simp only: eq)
    ultimately show ?thesis
      using m(1,2) by (intro exI[of _ "m + 1"]) simp
  qed
qed

lemma exists_safe_multiple:
  fixes c wl w r V :: int
  assumes "0 \<le> V" "1 \<le> wl" "0 < c" "gcd wl c + V \<le> c"
  shows "\<exists>K. 1 \<le> K \<and> V \<le> (w - (r + K * wl)) mod c"
proof -
  define g where "g = gcd wl c"
  have gpos: "0 < g"
    using assms(3) by (simp add: g_def)
  obtain u v where uv: "u * wl + v * c = g"
    using bezout_int[of wl c] unfolding g_def by blast
  define q where "q = (w - V - r) div g"
  define e where "e = (w - V - r) mod g"
  have e: "0 \<le> e" "e < g"
    using gpos by (simp_all add: e_def)
  have qe: "w - V - r = g * q + e"
    by (simp add: q_def e_def)
  define K0 where "K0 = q * u"
  define K where "K = K0 + (\<bar>K0\<bar> + 1) * c"
  have "(\<bar>K0\<bar> + 1) * 1 \<le> (\<bar>K0\<bar> + 1) * c"
    using assms(3) by (intro mult_left_mono) linarith+
  then have "\<bar>K0\<bar> + 1 \<le> K - K0"
    by (simp add: K_def)
  then have Kpos: "1 \<le> K"
    by linarith
  have uwl: "u * wl = g - v * c"
    using uv by linarith
  have "K * wl = q * (u * wl) + (\<bar>K0\<bar> + 1) * c * wl"
    by (simp add: K_def K0_def algebra_simps)
  also have "\<dots> = q * g - q * v * c + (\<bar>K0\<bar> + 1) * c * wl"
    by (simp add: uwl algebra_simps)
  finally have "w - (r + K * wl) = (V + e) + c * (q * v - (\<bar>K0\<bar> + 1) * wl)"
    using qe by (simp add: algebra_simps)
  then have "(w - (r + K * wl)) mod c = (V + e) mod c"
    by simp
  also have "\<dots> = V + e"
    using assms e by (intro mod_pos_pos_trivial) (simp_all add: g_def)
  finally have "V \<le> (w - (r + K * wl)) mod c"
    using e by simp
  with Kpos show ?thesis
    by blast
qed

lemma advance_loop_returns:
  assumes "0 \<le> w" "w < c" "0 \<le> r" "r < c" "1 \<le> wl" "wl < c" "gcd wl c + VL \<le> c"
  shows "\<exists>k. 1 \<le> k
       \<and> advance_index_loop w (move_index r wl c) wl c = Some ((r + k * wl) mod c)
       \<and> VL \<le> dist_forward ((r + k * wl) mod c) w c"
proof -
  have c: "0 < c" "0 \<le> wl"
    using assms by linarith+
  obtain K where K: "1 \<le> K" "VL \<le> (w - (r + K * wl)) mod c"
    using exists_safe_multiple[of VL wl c w r] assms c by (auto simp: VL_def VISUALIZER_BUFSIZE_def)
  have "dist_forward ((r + K * wl) mod c) w c = (w - (r + K * wl) mod c) mod c"
    using assms c by (intro dist_forward_mod) simp_all
  also have "\<dots> = (w - (r + K * wl)) mod c"
    by (simp add: mod_diff_right_eq)
  finally have safe: "VL \<le> dist_forward ((r + (1 + int (nat (K - 1))) * wl) mod c) w c"
    using K by simp
  from loop_reaches[OF c(1) c(2) assms(6) safe]
  obtain m where m: "0 \<le> m"
    "advance_index_loop w ((r + 1 * wl) mod c) wl c = Some ((r + (1 + m) * wl) mod c)"
    "VL \<le> dist_forward ((r + (1 + m) * wl) mod c) w c"
    by blast
  have "move_index r wl c = (r + 1 * wl) mod c"
    using assms by (simp add: move_index_mod)
  with m show ?thesis
    by (intro exI[of _ "1 + m"]) simp
qed


lemma gcd_proper_half:
  fixes wl c :: int
  assumes "1 \<le> wl" "wl < c"
  shows "2 * gcd wl c \<le> c"
proof -
  define g where "g = gcd wl c"
  have gpos: "0 < g"
    using assms by (simp add: g_def)
  have "g \<le> wl"
    using assms unfolding g_def by (intro gcd_le1_int) simp
  then have gc: "g < c"
    using assms by simp
  have "g dvd c"
    by (simp add: g_def)
  then obtain m where m: "c = g * m"
    by (auto simp: dvd_def)
  have "1 < m"
  proof (rule ccontr)
    assume "\<not> 1 < m"
    then have "m \<le> 1" by simp
    then have "g * m \<le> g * 1"
      using gpos by (intro mult_left_mono) simp_all
    with m gc show False by simp
  qed
  then have "g * 2 \<le> g * m"
    using gpos by (intro mult_left_mono) simp_all
  with m show ?thesis
    by (simp add: g_def)
qed

lemma advance_index_loop_result:
  assumes "advance_index_loop w0 r0 wl0 c0 = Some y0"
  shows "0 < c0 \<and> 0 \<le> wl0 \<and> wl0 < c0 \<longrightarrow>
           VL \<le> dist_forward y0 w0 c0
           \<and> (\<forall>a k. r0 = (a + k * wl0) mod c0 \<longrightarrow> (\<exists>m\<ge>0. y0 = (a + (k + m) * wl0) mod c0))"
proof (rule advance_index_loop.raw_induct
    [where P = "\<lambda>w r wl c y. 0 < c \<and> 0 \<le> wl \<and> wl < c \<longrightarrow>
           VL \<le> dist_forward y w c
           \<and> (\<forall>a k. r = (a + k * wl) mod c \<longrightarrow> (\<exists>m\<ge>0. y = (a + (k + m) * wl) mod c))",
     OF _ assms])
  fix f :: "int \<Rightarrow> int \<Rightarrow> int \<Rightarrow> int \<Rightarrow> int option" and w r wl c y
  assume IH: "\<And>w r wl c y. f w r wl c = Some y \<Longrightarrow>
        0 < c \<and> 0 \<le> wl \<and> wl < c \<longrightarrow>
           VL \<le> dist_forward y w c
           \<and> (\<forall>a k. r = (a + k * wl) mod c \<longrightarrow> (\<exists>m\<ge>0. y = (a + (k + m) * wl) mod c))"
    and body: "(if dist_forward r w c < VL then f w (move_index r wl c) wl c else Some r) = Some y"
  show "0 < c \<and> 0 \<le> wl \<and> wl < c \<longrightarrow>
           VL \<le> dist_forward y w c
           \<and> (\<forall>a k. r = (a + k * wl) mod c \<longrightarrow> (\<exists>m\<ge>0. y = (a + (k + m) * wl) mod c))"
  proof (intro impI)
    assume c: "0 < c \<and> 0 \<le> wl \<and> wl < c"
    show "VL \<le> dist_forward y w c
           \<and> (\<forall>a k. r = (a + k * wl) mod c \<longrightarrow> (\<exists>m\<ge>0. y = (a + (k + m) * wl) mod c))"
    proof (cases "dist_forward r w c < VL")
      case False
      with body have "y = r" by simp
      with False show ?thesis
        by (auto intro: exI[of _ 0])
    next
      case True
      with body have "f w (move_index r wl c) wl c = Some y" by simp
      from IH[OF this] c
      have ih: "VL \<le> dist_forward y w c"
        "\<And>a k. move_index r wl c = (a + k * wl) mod c \<Longrightarrow> \<exists>m\<ge>0. y = (a + (k + m) * wl) mod c"
        by blast+
      have "\<exists>m\<ge>0. y = (a + (k + m) * wl) mod c" if r: "r = (a + k * wl) mod c" for a k
      proof -
        have "move_index r wl c = (a + (k + 1) * wl) mod c"
          unfolding r using c by (intro move_index_step) simp_all
        from ih(2)[OF this] obtain m where "0 \<le> m" "y = (a + (k + 1 + m) * wl) mod c"
          by blast
        moreover have "k + 1 + m = k + (m + 1)"
          by simp
        ultimately have "0 \<le> m + 1 \<and> y = (a + (k + (m + 1)) * wl) mod c"
          by (simp only:) simp
        then show ?thesis
          by (rule exI[of _ "m + 1"])
      qed
      with ih(1) show ?thesis
        by blast
    qed
  qed
qed

lemma advance_index_result:
  assumes "0 \<le> r" "r < c" "1 \<le> wave_length f" "wave_length f < c"
    and "advance_index w r f c = Some r'"
  shows "VL \<le> dist_forward r' w c \<and> (\<exists>k\<ge>1. r' = (r + k * wave_length f) mod c)"
proof -
  let ?wl = "wave_length f"
  have c: "0 < c \<and> 0 \<le> ?wl \<and> ?wl < c"
    using assms by linarith
  have start: "move_index r ?wl c = (r + 1 * ?wl) mod c"
    using assms by (simp add: move_index_mod)
  have "advance_index_loop w (move_index r ?wl c) ?wl c = Some r'"
    using assms(5) by (simp add: advance_index_def Let_def)
  from advance_index_loop_result[OF this] c start
  obtain m where "VL \<le> dist_forward r' w c" "0 \<le> m" "r' = (r + (1 + m) * ?wl) mod c"
    by blast
  then show ?thesis
    by (intro conjI exI[of _ "1 + m"]) simp_all
qed

lemma advance_index_reaches:
  assumes "0 \<le> w" "w < c" "0 \<le> r" "r < c" "1 \<le> wave_length f" "wave_length f < c"
    and "1 \<le> k" "VL \<le> dist_forward ((r + k * wave_length f) mod c) w c"
  shows "\<exists>r'. advance_index w r f c = Some r'"
proof -
  let ?wl = "wave_length f"
  have c: "0 < c" "0 \<le> ?wl"
    using assms by linarith+
  have safe: "VL \<le> dist_forward ((r + (1 + int (nat (k - 1))) * ?wl) mod c) w c"
    using assms(7,8) by simp
  from loop_reaches[OF c(1) c(2) assms(6) safe]
  obtain m where "advance_index_loop w ((r + 1 * ?wl) mod c) ?wl c = Some ((r + (1 + m) * ?wl) mod c)"
    by blast
  moreover have "move_index r ?wl c = (r + 1 * ?wl) mod c"
    using assms by (simp add: move_index_mod)
  ultimately show ?thesis
    by (simp add: advance_index_def Let_def)
qed

text \<open>
  Claim C2, as amended. For a capacity \<open>c > VL\<close>, cursors \<open>w\<close> and \<open>r\<close> in \<open>[0, c)\<close> and a
  locked frequency whose wave length \<open>\<lambda>\<close> satisfies \<open>1 \<le> \<lambda> < c\<close>: \<open>advance_index\<close> returns
  exactly when some position \<open>(r + k * \<lambda>) mod c\<close> with \<open>k \<ge> 1\<close> is at least \<open>VL\<close> steps behind
  \<open>w\<close>; whatever it returns is such a position, so \<open>dist_forward r' w c \<ge> VL\<close> and
  \<open>r' = (r + k * \<lambda>) mod c\<close> for some \<open>k \<ge> 1\<close>; and it does return, for all \<open>w\<close> and \<open>r\<close>, when
  \<open>gcd \<lambda> c \<le> c - VL\<close> (true whenever \<open>c \<ge> 2 * VL\<close>, as for \<open>TBL\<close>).
\<close>

theorem advance_index_safe_whole_wavelengths:
  assumes "VL < c" "0 \<le> w" "w < c" "0 \<le> r" "r < c"
    and "1 \<le> wave_length f" "wave_length f < c"
  shows "((\<exists>r'. advance_index w r f c = Some r')
            \<longleftrightarrow> (\<exists>k\<ge>1. VL \<le> dist_forward ((r + k * wave_length f) mod c) w c))
       \<and> (\<forall>r'. advance_index w r f c = Some r'
            \<longrightarrow> VL \<le> dist_forward r' w c \<and> (\<exists>k\<ge>1. r' = (r + k * wave_length f) mod c))
       \<and> (gcd (wave_length f) c \<le> c - VL \<longrightarrow> (\<exists>r'. advance_index w r f c = Some r'))"
proof (intro conjI allI impI iffI)
  assume "\<exists>r'. advance_index w r f c = Some r'"
  then obtain r' where "advance_index w r f c = Some r'" ..
  from advance_index_result[OF assms(4-7) this]
  show "\<exists>k\<ge>1. VL \<le> dist_forward ((r + k * wave_length f) mod c) w c"
    by blast
next
  assume "\<exists>k\<ge>1. VL \<le> dist_forward ((r + k * wave_length f) mod c) w c"
  then obtain k where "1 \<le> k" "VL \<le> dist_forward ((r + k * wave_length f) mod c) w c"
    by blast
  from advance_index_reaches[OF assms(2-7) this]
  show "\<exists>r'. advance_index w r f c = Some r'" .
next
  fix r' assume "advance_index w r f c = Some r'"
  from advance_index_result[OF assms(4-7) this]
  show "VL \<le> dist_forward r' w c" "\<exists>k\<ge>1. r' = (r + k * wave_length f) mod c"
    by blast+
next
  assume "gcd (wave_length f) c \<le> c - VL"
  then have "gcd (wave_length f) c + VL \<le> c"
    by simp
  from advance_loop_returns[OF assms(2-7) this]
  show "\<exists>r'. advance_index w r f c = Some r'"
    by (auto simp: advance_index_def Let_def)
qed

theorem advance_index_safe_whole_wavelengths_witness:
  "VL < 2000 \<and> (0::int) \<le> 1023 \<and> (1023::int) < 2000 \<and> (0::int) \<le> 500 \<and> (500::int) < 2000
   \<and> 1 \<le> wave_length 48 \<and> wave_length 48 < 2000
   \<and> wave_length 48 = 1000
   \<and> advance_index 1023 500 48 2000 = Some 1500
   \<and> VL \<le> dist_forward 1500 1023 2000
   \<and> 1500 = (500 + 1 * wave_length 48) mod 2000"
proof -
  have h: "VL < 2000" "(0::int) \<le> 1023" "(1023::int) < 2000" "(0::int) \<le> 500" "(500::int) < 2000"
    "1 \<le> wave_length 48" "wave_length 48 < 2000"
    by (simp_all add: wave_length_48 const_defs)
  have res: "advance_index 1023 500 48 2000 = Some 1500"
    by (simp add: advance_index_def wave_length_48 const_defs move_index_def dist_forward_def
        advance_index_loop.simps)
  from advance_index_safe_whole_wavelengths[OF h] res
  have "VL \<le> dist_forward 1500 1023 2000"
    by blast
  with h res show ?thesis
    by (simp add: wave_length_48)
qed

text \<open>
  The claim as written (a result for every capacity above \<open>VL\<close>) fails: with capacity
  2000 and the frequency 48 Hz (wave length 1000) the cursor alternates between 1000
  and 0, both fewer than \<open>VL\<close> steps behind the write cursor 1023, and the loop never
  returns.
\<close>

theorem advance_index_stuck_counterexample:
  "(1024::int) < 2000 \<and> wave_length 48 = 1000 \<and> advance_index 1023 0 48 2000 = None"
proof -
  have wl: "wave_length 48 = 1000"
    by (rule wave_length_48)
  have "advance_index 1023 0 48 2000 = None"
  proof (cases "advance_index 1023 0 48 2000")
    case None
    then show ?thesis .
  next
    case (Some y)
    then have "advance_index_loop 1023 1000 1000 2000 = Some y"
      by (simp add: advance_index_def wl move_index_def)
    from loop_stuck[OF this] show ?thesis
      by simp
  qed
  with wl show ?thesis
    by simp
qed

text \<open>
  Claim C10. With the buffer length \<open>TBL = 8192\<close> and the window \<open>VL = 1024\<close>, for cursors
  in \<open>[0, TBL)\<close> and a frequency whose wave length \<open>\<lambda>\<close> satisfies \<open>1 \<le> \<lambda> < TBL\<close>, the
  positions reached in steps of \<open>\<lambda>\<close> are \<open>gcd \<lambda> TBL \<le> TBL div 2\<close> apart, and the loop
  of \<open>advance_index\<close> returns.
\<close>

theorem advance_index_terminates_TBL:
  assumes "0 \<le> w" "w < TBL" "0 \<le> r" "r < TBL"
    and "1 \<le> wave_length f" "wave_length f < TBL"
  shows "gcd (wave_length f) TBL \<le> TBL div 2
       \<and> (\<exists>r'. advance_index w r f TBL = Some r')"
proof -
  have half: "2 * gcd (wave_length f) TBL \<le> TBL"
    using assms(5,6) by (rule gcd_proper_half)
  then have "gcd (wave_length f) TBL + VL \<le> TBL"
    by (simp add: const_defs)
  from advance_loop_returns[OF assms this] half show ?thesis
    by (auto simp: advance_index_def Let_def)
qed

theorem advance_index_terminates_TBL_witness:
  "(0::int) \<le> 1536 \<and> 1536 < TBL \<and> (0::int) \<le> 0 \<and> 0 < TBL
   \<and> 1 \<le> wave_length 60 \<and> wave_length 60 < TBL
   \<and> gcd (wave_length 60) TBL \<le> TBL div 2
   \<and> dist_forward (move_index 0 (wave_length 60) TBL) 1536 TBL < VL
   \<and> advance_index 1536 0 60 TBL = Some 1600"
proof -
  have wl: "wave_length 60 = 800"
    by (rule wave_length_60)
  have h: "(0::int) \<le> 1536" "1536 < TBL" "(0::int) \<le> 0" "0 < TBL"
    "1 \<le> wave_length 60" "wave_length 60 < TBL"
    by (simp_all add: wl const_defs)
  have res: "advance_index 1536 0 60 TBL = Some 1600"
    by (simp add: advance_index_def wl const_defs move_index_def dist_forward_def
        advance_index_loop.simps)
  from advance_index_terminates_TBL[OF h] res h show ?thesis
    by (simp add: wl const_defs move_index_def dist_forward_def)
qed

subsection \<open>Cross-correlation synchroniser\<close>

lemma cdiv_nonneg: "0 \<le> a \<Longrightarrow> 0 < b \<Longrightarrow> cdiv a b = a div b"
  by (cases "a = 0") (simp_all add: cdiv_def)

lemma cdiv_neg_num: "0 \<le> a \<Longrightarrow> 0 < b \<Longrightarrow> cdiv (- a) b = - (a div b)"
  by (cases "a = 0") (simp_all add: cdiv_def)

lemma xcorr_scan_candidates:
  assumes "0 \<le> r" "r < TBL"
  shows "xcorr_scan md n r max_r max_md = max_r
       \<or> (\<exists>j. 0 \<le> j \<and> j < int n
              \<and> xcorr_scan md n r max_r max_md = (r + j * HISTORY_SEARCH_GRANULARITY) mod TBL)"
  using assms
proof (induction n arbitrary: r max_r max_md)
  case 0
  then show ?case by simp
next
  case (Suc n)
  define r' where "r' = move_index r HISTORY_SEARCH_GRANULARITY TBL"
  have r'_eq: "r' = (r + HISTORY_SEARCH_GRANULARITY) mod TBL"
    unfolding r'_def using Suc.prems
    by (intro move_index_mod) (simp_all add: const_defs)
  then have r'_range: "0 \<le> r'" "r' < TBL"
    by (simp_all add: const_defs)
  have step_j: "(r' + j * HISTORY_SEARCH_GRANULARITY) mod TBL
              = (r + (j + 1) * HISTORY_SEARCH_GRANULARITY) mod TBL" for j
  proof -
    have "(r' + j * HISTORY_SEARCH_GRANULARITY) mod TBL
        = ((r + HISTORY_SEARCH_GRANULARITY) mod TBL + j * HISTORY_SEARCH_GRANULARITY) mod TBL"
      by (simp only: r'_eq)
    also have "\<dots> = (r + HISTORY_SEARCH_GRANULARITY + j * HISTORY_SEARCH_GRANULARITY) mod TBL"
      by (rule mod_add_left_eq)
    also have "r + HISTORY_SEARCH_GRANULARITY + j * HISTORY_SEARCH_GRANULARITY
             = r + (j + 1) * HISTORY_SEARCH_GRANULARITY"
      by (simp add: algebra_simps)
    finally show ?thesis .
  qed
  have r_self: "r = (r + 0 * HISTORY_SEARCH_GRANULARITY) mod TBL"
    using Suc.prems by simp
  define mr where "mr = (if fl_gt (md r) max_md then r else max_r)"
  define mm where "mm = (if fl_gt (md r) max_md then md r else max_md)"
  have unfold: "xcorr_scan md (Suc n) r max_r max_md = xcorr_scan md n r' mr mm"
    by (simp add: r'_def mr_def mm_def)
  from Suc.IH[OF r'_range, of mr mm]
  consider "xcorr_scan md n r' mr mm = mr"
    | j where "0 \<le> j" "j < int n"
        "xcorr_scan md n r' mr mm = (r' + j * HISTORY_SEARCH_GRANULARITY) mod TBL"
    by blast
  then show ?case
  proof cases
    case 1
    then have res: "xcorr_scan md (Suc n) r max_r max_md = mr"
      by (simp only: unfold)
    show ?thesis
    proof (cases "fl_gt (md r) max_md")
      case True
      then have "xcorr_scan md (Suc n) r max_r max_md
               = (r + 0 * HISTORY_SEARCH_GRANULARITY) mod TBL"
        using r_self by (simp only: res mr_def if_True)
      then show ?thesis
        by (intro disjI2 exI[of _ 0]) simp
    next
      case False
      then have "xcorr_scan md (Suc n) r max_r max_md = max_r"
        by (simp only: res mr_def if_False)
      then show ?thesis
        by (rule disjI1)
    qed
  next
    case 2
    then have "xcorr_scan md (Suc n) r max_r max_md
             = (r + (j + 1) * HISTORY_SEARCH_GRANULARITY) mod TBL"
      by (simp only: unfold step_j)
    with 2(1,2) show ?thesis
      by (intro disjI2 exI[of _ "j + 1"]) simp
  qed
qed

lemma cross_correlation_sync_candidate:
  assumes "0 \<le> r" "r < TBL"
    and "HISTORY_SEARCH_GRANULARITY \<le> d" "d \<le> TBL"
  shows "\<exists>i. 0 \<le> i \<and> i < cdiv d HISTORY_SEARCH_GRANULARITY
           \<and> cross_correlation_sync w r d md
             = (r - cdiv d 2 + i * HISTORY_SEARCH_GRANULARITY) mod TBL"
proof -
  have d0: "0 \<le> d"
    using assms(3) by (simp add: const_defs)
  define r0 where "r0 = move_index r (cdiv (- d) 2) TBL"
  define n where "n = nat (cdiv d HISTORY_SEARCH_GRANULARITY)"
  have half: "cdiv (- d) 2 = - (d div 2)" "cdiv d 2 = d div 2"
    using d0 by (simp_all add: cdiv_neg_num cdiv_nonneg)
  have cnt: "cdiv d HISTORY_SEARCH_GRANULARITY = d div 3"
    using d0 by (simp add: cdiv_nonneg const_defs)
  have "0 < d div 3"
    using assms(3) by (simp add: const_defs pos_imp_zdiv_pos_iff)
  then have npos: "0 < int n" "int n = cdiv d HISTORY_SEARCH_GRANULARITY"
    by (simp_all only: n_def cnt)
  have r0_eq: "r0 = (r - cdiv d 2) mod TBL"
    unfolding r0_def half using assms d0
    by (subst move_index_mod) (simp_all add: const_defs)
  then have r0_range: "0 \<le> r0" "r0 < TBL"
    by (simp_all add: const_defs)
  have res: "cross_correlation_sync w r d md = xcorr_scan md n r0 r0 MInf"
    by (simp add: cross_correlation_sync_def r0_def n_def Let_def)
  have shift: "(r0 + j * HISTORY_SEARCH_GRANULARITY) mod TBL
             = (r - cdiv d 2 + j * HISTORY_SEARCH_GRANULARITY) mod TBL" for j
    unfolding r0_eq by (rule mod_add_left_eq)
  from xcorr_scan_candidates[OF r0_range, of md n r0 MInf]
  consider "xcorr_scan md n r0 r0 MInf = r0"
    | j where "0 \<le> j" "j < int n"
        "xcorr_scan md n r0 r0 MInf = (r0 + j * HISTORY_SEARCH_GRANULARITY) mod TBL"
    by blast
  then show ?thesis
  proof cases
    case 1
    then have "cross_correlation_sync w r d md
             = (r - cdiv d 2 + 0 * HISTORY_SEARCH_GRANULARITY) mod TBL"
      by (simp add: res r0_eq)
    with npos show ?thesis
      by (intro exI[of _ 0]) simp
  next
    case 2
    then have "cross_correlation_sync w r d md
             = (r - cdiv d 2 + j * HISTORY_SEARCH_GRANULARITY) mod TBL"
      by (simp only: res shift)
    with 2(1,2) npos show ?thesis
      by (intro exI[of _ j]) simp
  qed
qed


lemma xcorr_scan_no_better:
  "(\<And>x. \<not> fl_gt (md x) max_md) \<Longrightarrow> xcorr_scan md n r max_r max_md = max_r"
  by (induction n arbitrary: r) simp_all

lemma cross_correlation_sync_equal_scores:
  assumes "HISTORY_SEARCH_GRANULARITY \<le> d"
  shows "cross_correlation_sync w r d (\<lambda>_. Fin 0) = move_index r (cdiv (- d) 2) TBL"
proof -
  have "0 < d div 3"
    using assms by (simp add: const_defs pos_imp_zdiv_pos_iff)
  then have "0 < nat (cdiv d HISTORY_SEARCH_GRANULARITY)"
    using assms by (simp add: cdiv_nonneg const_defs)
  then obtain n where n: "nat (cdiv d HISTORY_SEARCH_GRANULARITY) = Suc n"
    by (cases "nat (cdiv d HISTORY_SEARCH_GRANULARITY)") simp_all
  show ?thesis
    by (simp add: cross_correlation_sync_def Let_def n xcorr_scan_no_better)
qed

text \<open>
  Claim C6, as amended. For a cursor \<open>r\<close> in \<open>[0, TBL)\<close> and a search range \<open>d\<close> (the program passes
  \<open>HISTORY_SEARCH_RANGE\<close>; any \<open>d\<close> from the granularity up to \<open>TBL\<close> will do), whatever the
  scores are, the cursor that \<open>cross_correlation_sync\<close> returns is one of the scanned
  candidates \<open>(r - d/2 + i * G) mod TBL\<close> with \<open>0 \<le> i < d/G\<close>. It lies in the search
  window, which is centred at \<open>r\<close>: its forward distance from the start \<open>r - d/2\<close> of the
  window is \<open>i * G \<le> d\<close>, and it is at most \<open>d/2\<close> steps before or after \<open>r\<close>.
\<close>

theorem cross_correlation_sync_in_window:
  assumes "0 \<le> r" "r < TBL"
    and "HISTORY_SEARCH_GRANULARITY \<le> d" "d \<le> TBL"
  shows "\<exists>i. 0 \<le> i \<and> i < cdiv d HISTORY_SEARCH_GRANULARITY
           \<and> cross_correlation_sync w r d md
             = (r - cdiv d 2 + i * HISTORY_SEARCH_GRANULARITY) mod TBL
           \<and> dist_forward (move_index r (cdiv (- d) 2) TBL)
                (cross_correlation_sync w r d md) TBL = i * HISTORY_SEARCH_GRANULARITY
           \<and> i * HISTORY_SEARCH_GRANULARITY \<le> d
           \<and> (dist_forward r (cross_correlation_sync w r d md) TBL \<le> cdiv d 2
              \<or> dist_backward r (cross_correlation_sync w r d md) TBL \<le> cdiv d 2)"
proof -
  define h where "h = d div 2"
  define r' where "r' = cross_correlation_sync w r d md"
  have d0: "0 \<le> d" "3 \<le> d"
    using assms(3) by (simp_all add: const_defs)
  have half: "cdiv (- d) 2 = - h" "cdiv d 2 = h"
    using d0 by (simp_all add: cdiv_neg_num cdiv_nonneg h_def)
  have cnt: "cdiv d HISTORY_SEARCH_GRANULARITY = d div 3"
    using d0 by (simp add: cdiv_nonneg const_defs)
  have G: "HISTORY_SEARCH_GRANULARITY = 3"
    by (simp add: const_defs)
  have cnt3: "cdiv d 3 = d div 3"
    using cnt by (simp only: G)
  have T: "0 < TBL"
    by (simp add: const_defs)
  have h: "0 \<le> h" "2 * h \<le> d" "d \<le> 2 * h + 1"
    using d0 by (simp_all add: h_def)
  from cross_correlation_sync_candidate[OF assms, of w md]
  have "\<exists>i. 0 \<le> i \<and> i < d div 3 \<and> r' = (r - h + i * 3) mod TBL"
    by (simp only: half G cnt3 flip: r'_def)
  then obtain i where i: "0 \<le> i" "i < d div 3" "r' = (r - h + i * 3) mod TBL"
    by (elim exE conjE)
  have i3: "i * 3 < d"
    using i(2) by linarith
  have r0: "move_index r (- h) TBL = (r - h) mod TBL"
    using assms h by (subst move_index_mod) simp_all
  have r'_range: "0 \<le> r'" "r' < TBL"
    using T by (simp_all add: i(3))
  have "dist_forward ((r - h) mod TBL) r' TBL = (r' - (r - h) mod TBL) mod TBL"
    using T r'_range by (intro dist_forward_mod) simp_all
  also have "\<dots> = ((r - h + i * 3) - (r - h)) mod TBL"
    unfolding i(3) by (rule mod_diff_eq)
  also have "\<dots> = i * 3"
    using i(1) i3 assms(4) by simp
  finally have start: "dist_forward (move_index r (- h) TBL) r' TBL = i * 3"
    by (simp only: r0)
  have near: "dist_forward r r' TBL \<le> h \<or> dist_backward r r' TBL \<le> h"
  proof (cases "h \<le> i * 3")
    case True
    have "dist_forward r r' TBL = (r' - r) mod TBL"
      using assms r'_range by (intro dist_forward_mod) simp_all
    also have "\<dots> = ((r - h + i * 3) - r) mod TBL"
      unfolding i(3) by (rule mod_diff_left_eq)
    also have "\<dots> = i * 3 - h"
      using True i3 assms(4) h by simp
    finally show ?thesis
      using i3 h by simp
  next
    case False
    have "dist_backward r r' TBL = (r - r') mod TBL"
      unfolding dist_backward_def using assms r'_range by (intro dist_forward_mod) simp_all
    also have "\<dots> = (r - (r - h + i * 3)) mod TBL"
      unfolding i(3) by (rule mod_diff_right_eq)
    also have "\<dots> = h - i * 3"
      using False i(1) assms(4) h by simp
    finally show ?thesis
      using i(1) by simp
  qed
  from i i3 start near
  have "0 \<le> i \<and> i < d div 3 \<and> r' = (r - h + i * 3) mod TBL
      \<and> dist_forward (move_index r (- h) TBL) r' TBL = i * 3 \<and> i * 3 \<le> d
      \<and> (dist_forward r r' TBL \<le> h \<or> dist_backward r r' TBL \<le> h)"
    by simp
  then show ?thesis
    unfolding r'_def half G cnt3 by (rule exI[of _ i])
qed

theorem cross_correlation_sync_in_window_witness:
  "(0::int) \<le> 100 \<and> 100 < TBL
   \<and> HISTORY_SEARCH_GRANULARITY \<le> HISTORY_SEARCH_RANGE \<and> HISTORY_SEARCH_RANGE \<le> TBL
   \<and> cross_correlation_sync 4096 100 HISTORY_SEARCH_RANGE (\<lambda>_. Fin 0) = 8117
   \<and> 8117 = (100 - cdiv HISTORY_SEARCH_RANGE 2 + 0 * HISTORY_SEARCH_GRANULARITY) mod TBL
   \<and> dist_forward (move_index 100 (cdiv (- HISTORY_SEARCH_RANGE) 2) TBL) 8117 TBL = 0
   \<and> dist_backward 100 8117 TBL = 175"
proof -
  have h: "(0::int) \<le> 100" "100 < TBL"
    "HISTORY_SEARCH_GRANULARITY \<le> HISTORY_SEARCH_RANGE" "HISTORY_SEARCH_RANGE \<le> TBL"
    by (simp_all add: const_defs)
  have "cross_correlation_sync 4096 100 HISTORY_SEARCH_RANGE (\<lambda>_. Fin 0)
      = move_index 100 (cdiv (- HISTORY_SEARCH_RANGE) 2) TBL"
    by (rule cross_correlation_sync_equal_scores[OF h(3)])
  also have "\<dots> = 8117"
    by (simp add: cdiv_def move_index_def const_defs)
  finally have res: "cross_correlation_sync 4096 100 HISTORY_SEARCH_RANGE (\<lambda>_. Fin 0) = 8117" .
  from cross_correlation_sync_in_window[OF h, of 4096 "\<lambda>_. Fin 0"] res h show ?thesis
    by (simp add: cdiv_def move_index_def dist_forward_def dist_backward_def const_defs)
qed

text \<open>
  The claim as written bounds the forward distance from \<open>r\<close> itself by the search range.
  That fails for every candidate behind \<open>r\<close>: with equal scores the scan keeps its first
  candidate, 175 steps behind \<open>r\<close>, which is \<open>TBL - 175\<close> steps forward of \<open>r\<close>.
\<close>

theorem cross_correlation_sync_forward_distance_counterexample:
  "(0::int) \<le> 100 \<and> 100 < TBL
   \<and> VL \<le> dist_forward 100 4096 TBL
   \<and> cross_correlation_sync 4096 100 HISTORY_SEARCH_RANGE (\<lambda>_. Fin 0) = 8117
   \<and> dist_forward 100 8117 TBL = 8017
   \<and> \<not> dist_forward 100 8117 TBL \<le> HISTORY_SEARCH_RANGE"
proof -
  have "HISTORY_SEARCH_GRANULARITY \<le> HISTORY_SEARCH_RANGE"
    by (simp add: const_defs)
  then have "cross_correlation_sync 4096 100 HISTORY_SEARCH_RANGE (\<lambda>_. Fin 0)
      = move_index 100 (cdiv (- HISTORY_SEARCH_RANGE) 2) TBL"
    by (rule cross_correlation_sync_equal_scores)
  also have "\<dots> = 8117"
    by (simp add: cdiv_def move_index_def const_defs)
  finally show ?thesis
    by (simp add: dist_forward_def const_defs)
qed

subsection \<open>Constructor, step and pacing\<close>

lemma valid_freq_60: "valid_freq 60"
  by (simp add: valid_freq_def wave_length_60 const_defs)

lemma initial_state_ok: "state_ok (initial_state ao)"
  by (simp add: initial_state_def state_ok_def valid_freq_60 const_defs)

lemma input_ok_silent: "input_ok (silent_in t)"
  by (simp add: input_ok_def silent_in_def valid_freq_60)

lemma advance_index_ok:
  assumes "0 \<le> w" "w < TBL" "0 \<le> r" "r < TBL" "valid_freq f"
  shows "\<exists>r'. advance_index w r f TBL = Some r' \<and> 0 \<le> r' \<and> r' < TBL
           \<and> VL \<le> dist_forward r' w TBL"
proof -
  have wl: "1 \<le> wave_length f" "wave_length f < TBL"
    using assms(5) by (simp_all add: valid_freq_def)
  have "2 * gcd (wave_length f) TBL \<le> TBL"
    using wl by (rule gcd_proper_half)
  then have "gcd (wave_length f) TBL + VL \<le> TBL"
    by (simp add: const_defs)
  from advance_loop_returns[OF assms(1-4) wl this]
  obtain k where k: "advance_index_loop w (move_index r (wave_length f) TBL) (wave_length f) TBL
      = Some ((r + k * wave_length f) mod TBL)"
    "VL \<le> dist_forward ((r + k * wave_length f) mod TBL) w TBL"
    by blast
  have "0 \<le> (r + k * wave_length f) mod TBL" "(r + k * wave_length f) mod TBL < TBL"
    by (simp_all add: const_defs)
  with k show ?thesis
    by (simp add: advance_index_def Let_def)
qed

lemma cross_correlation_sync_range:
  assumes "0 \<le> r" "r < TBL"
  shows "0 \<le> cross_correlation_sync w r HISTORY_SEARCH_RANGE md
       \<and> cross_correlation_sync w r HISTORY_SEARCH_RANGE md < TBL"
proof -
  have "HISTORY_SEARCH_GRANULARITY \<le> HISTORY_SEARCH_RANGE" "HISTORY_SEARCH_RANGE \<le> TBL"
    by (simp_all add: const_defs)
  from cross_correlation_sync_candidate[OF assms this, of w md]
  obtain i where "cross_correlation_sync w r HISTORY_SEARCH_RANGE md
      = (r - cdiv HISTORY_SEARCH_RANGE 2 + i * HISTORY_SEARCH_GRANULARITY) mod TBL"
    by (elim exE conjE)
  then show ?thesis
    by (simp add: const_defs)
qed

lemma process_cycle_ok:
  assumes "state_ok s" "input_ok inp"
  shows "\<exists>s'. process_cycle s inp = Some s' \<and> state_ok s'
           \<and> frame_id s' = frame_id s + 1 \<and> next_time s' = next_time s + dura60fps
           \<and> writer s' = writer s \<and> now_time s' = now_time s"
proof -
  from assms(1) have rng: "0 \<le> writer s" "writer s < TBL" "0 \<le> reader_l s" "reader_l s < TBL"
    "0 \<le> reader_r s" "reader_r s < TBL" "valid_freq (freq_l s)" "valid_freq (freq_r s)"
    by (simp_all add: state_ok_def)
  from advance_index_ok[OF rng(1,2,3,4,7)]
  obtain rl where rl: "advance_index (writer s) (reader_l s) (freq_l s) TBL = Some rl"
    "0 \<le> rl" "rl < TBL"
    by blast
  from advance_index_ok[OF rng(1,2,5,6,8)]
  obtain rr where rr: "advance_index (writer s) (reader_r s) (freq_r s) TBL = Some rr"
    "0 \<le> rr" "rr < TBL"
    by blast
  note xl = cross_correlation_sync_range[OF rl(2,3), of "writer s" "md_l inp"]
  note xr = cross_correlation_sync_range[OF rr(2,3), of "writer s" "md_r inp"]
  from assms(2) have inp: "valid_freq (harmonic_l inp)" "valid_freq (harmonic_r inp)"
    by (simp_all add: input_ok_def)
  show ?thesis
    using rng(1,2) rl rr xl xr inp valid_freq_60
    by (simp add: process_cycle_def Let_def state_ok_def)
qed

lemma step_unfold:
  "step s inp =
     (if clock_now inp > pace_target s (clock_now inp)
      then process_cycle (s\<lparr>writer := move_index (writer s) ABL TBL, now_time := clock_now inp,
                            next_time := pace_target s (clock_now inp)\<rparr>) inp
      else Some (s\<lparr>writer := move_index (writer s) ABL TBL, now_time := clock_now inp\<rparr>))"
  by (simp add: step_def Let_def pace_target_def milliseconds_def)

lemma writer_step_ok:
  assumes "state_ok s"
  shows "state_ok (s\<lparr>writer := move_index (writer s) ABL TBL, now_time := t, next_time := n\<rparr>)"
    and "state_ok (s\<lparr>writer := move_index (writer s) ABL TBL, now_time := t\<rparr>)"
proof -
  have "0 \<le> move_index (writer s) ABL TBL \<and> move_index (writer s) ABL TBL < TBL"
    using assms by (intro move_index_range) (simp_all add: state_ok_def const_defs)
  with assms show "state_ok (s\<lparr>writer := move_index (writer s) ABL TBL, now_time := t, next_time := n\<rparr>)"
    and "state_ok (s\<lparr>writer := move_index (writer s) ABL TBL, now_time := t\<rparr>)"
    by (simp_all add: state_ok_def)
qed

lemma step_ok:
  assumes "state_ok s" "input_ok inp"
  shows "\<exists>s'. step s inp = Some s' \<and> state_ok s'
      \<and> (if clock_now inp > pace_target s (clock_now inp)
          then frame_id s' = frame_id s + 1
             \<and> next_time s' = pace_target s (clock_now inp) + dura60fps
          else frame_id s' = frame_id s \<and> next_time s' = next_time s
             \<and> reader_l s' = reader_l s \<and> reader_r s' = reader_r s)"
proof (cases "clock_now inp > pace_target s (clock_now inp)")
  case True
  from process_cycle_ok[OF writer_step_ok(1)[OF assms(1),
        where t = "clock_now inp" and n = "pace_target s (clock_now inp)"] assms(2)]
  show ?thesis
    using True by (auto simp: step_unfold)
next
  case False
  then show ?thesis
    using writer_step_ok(2)[OF assms(1), of "clock_now inp"]
    by (simp add: step_unfold)
qed

lemma paced_steps:
  assumes "state_ok s" "\<forall>inp\<in>set ins. input_ok inp"
    and "\<forall>i<length ins. clock_now (ins ! i) = t + int i * dura60fps"
    and "next_time s < t"
  shows "\<exists>s'. steps s ins = Some s' \<and> frame_id s' = frame_id s + int (length ins)"
  using assms
proof (induction ins arbitrary: s t)
  case Nil
  then show ?case by simp
next
  case (Cons inp ins)
  have now: "clock_now inp = t"
    using Cons.prems(3) by auto
  have tgt: "pace_target s t < t"
    using Cons.prems(4) by (simp add: pace_target_def milliseconds_def)
  from step_ok[of s inp] Cons.prems(1,2) now tgt
  obtain s1 where s1: "step s inp = Some s1" "state_ok s1" "frame_id s1 = frame_id s + 1"
    "next_time s1 = pace_target s t + dura60fps"
    by auto
  have later: "\<forall>i<length ins. clock_now (ins ! i) = (t + dura60fps) + int i * dura60fps"
  proof (intro allI impI)
    fix i assume "i < length ins"
    then have "clock_now ((inp # ins) ! Suc i) = t + int (Suc i) * dura60fps"
      using Cons.prems(3) by (metis Suc_less_eq length_Cons)
    then show "clock_now (ins ! i) = (t + dura60fps) + int i * dura60fps"
      by (simp add: algebra_simps)
  qed
  have "next_time s1 < t + dura60fps"
    using s1(4) tgt by simp
  from Cons.IH[OF s1(2) _ later this] Cons.prems(2)
  obtain s' where "steps s1 ins = Some s'" "frame_id s' = frame_id s1 + int (length ins)"
    by auto
  with s1 show ?case
    by simp
qed


lemma steps_ok:
  assumes "state_ok s" "\<forall>inp\<in>set ins. input_ok inp"
  shows "\<exists>s'. steps s ins = Some s' \<and> state_ok s'"
  using assms
proof (induction ins arbitrary: s)
  case Nil
  then show ?case by simp
next
  case (Cons inp ins)
  from step_ok[of s inp] Cons.prems obtain s1 where s1: "step s inp = Some s1" "state_ok s1"
    by auto
  from Cons.IH[OF s1(2)] Cons.prems(2) obtain s' where "steps s1 ins = Some s'" "state_ok s'"
    by auto
  with s1 show ?case
    by simp
qed

text \<open>
  Claim C4, as amended. From a well-formed state a call of \<open>step\<close> returns, and it runs a
  processing cycle exactly when the clock reading is strictly later than the target
  (the target after the 60 ms check: \<open>pace_target\<close>, which is the reading minus 1 ms when
  the reading is more than 60 ms past the old target). A cycle adds 1 to the frame
  counter and one period \<open>dura60fps\<close> to the target; without a cycle only the write
  cursor and the stored clock reading change. When the clock moves forward by exactly
  one period per call and the first reading is strictly later than the target, every
  call emits exactly one frame: after \<open>n\<close> calls the frame counter has grown by \<open>n\<close>.
\<close>

theorem step_pacing:
  assumes "state_ok s" "input_ok inp"
    and "\<forall>x\<in>set ins. input_ok x"
    and "\<forall>i<length ins. clock_now (ins ! i) = t + int i * dura60fps"
    and "next_time s < t"
  shows "(\<exists>s'. step s inp = Some s'
          \<and> (if pace_target s (clock_now inp) < clock_now inp
              then step s inp
                   = process_cycle (s\<lparr>writer := move_index (writer s) ABL TBL,
                                       now_time := clock_now inp,
                                       next_time := pace_target s (clock_now inp)\<rparr>) inp
                 \<and> frame_id s' = frame_id s + 1
                 \<and> next_time s' = pace_target s (clock_now inp) + dura60fps
              else s' = s\<lparr>writer := move_index (writer s) ABL TBL, now_time := clock_now inp\<rparr>))
       \<and> (\<forall>n\<le>length ins. \<exists>s'. steps s (take n ins) = Some s'
                                \<and> frame_id s' = frame_id s + int n)"
proof (intro conjI allI impI)
  from step_ok[OF assms(1,2)]
  show "\<exists>s'. step s inp = Some s'
          \<and> (if pace_target s (clock_now inp) < clock_now inp
              then step s inp
                   = process_cycle (s\<lparr>writer := move_index (writer s) ABL TBL,
                                       now_time := clock_now inp,
                                       next_time := pace_target s (clock_now inp)\<rparr>) inp
                 \<and> frame_id s' = frame_id s + 1
                 \<and> next_time s' = pace_target s (clock_now inp) + dura60fps
              else s' = s\<lparr>writer := move_index (writer s) ABL TBL, now_time := clock_now inp\<rparr>)"
    by (auto simp: step_unfold)
next
  fix n assume n: "n \<le> length ins"
  have a: "\<forall>x\<in>set (take n ins). input_ok x"
    using assms(3) by (meson in_set_takeD)
  have b: "\<forall>i<length (take n ins). clock_now (take n ins ! i) = t + int i * dura60fps"
    using assms(4) by simp
  have c: "length (take n ins) = n"
    using n by simp
  from paced_steps[OF assms(1) a b assms(5)]
  show "\<exists>s'. steps s (take n ins) = Some s' \<and> frame_id s' = frame_id s + int n"
    by (simp only: c)
qed

theorem step_pacing_witness:
  "state_ok (initial_state \<lparr>ao_xcorr_sync = False, ao_fft_sync = False, ao_wave_smooth = 1\<rparr>)
   \<and> input_ok (silent_in 20000000)
   \<and> pace_target (initial_state \<lparr>ao_xcorr_sync = False, ao_fft_sync = False, ao_wave_smooth = 1\<rparr>)
        20000000 = 16666668
   \<and> step (initial_state \<lparr>ao_xcorr_sync = False, ao_fft_sync = False, ao_wave_smooth = 1\<rparr>)
        (silent_in 20000000)
      = Some \<lparr>wave_smoother = 1, fft_sync = False, xcorr_sync = False,
               now_time = 20000000, next_time = 33333336, frame_id = 1,
               writer = 512, reader_l = 800, reader_r = 800, freq_l = 60, freq_r = 60\<rparr>
   \<and> (\<exists>s'. steps (initial_state \<lparr>ao_xcorr_sync = False, ao_fft_sync = False, ao_wave_smooth = 1\<rparr>)
              (take 2 [silent_in 20000000, silent_in 36666668]) = Some s'
            \<and> frame_id s' = 2)"
proof -
  define s0 where "s0 = initial_state \<lparr>ao_xcorr_sync = False, ao_fft_sync = False, ao_wave_smooth = 1\<rparr>"
  define ins where "ins = [silent_in 20000000, silent_in 36666668]"
  have h1: "state_ok s0"
    unfolding s0_def by (rule initial_state_ok)
  have h2: "input_ok (silent_in 20000000)"
    by (rule input_ok_silent)
  have h3: "\<forall>x\<in>set ins. input_ok x"
    by (simp add: ins_def input_ok_silent)
  have h4: "\<forall>i<length ins. clock_now (ins ! i) = 20000000 + int i * dura60fps"
    by (simp add: ins_def silent_in_def dura60fps_def less_Suc_eq nth_Cons')
  have h5: "next_time s0 < 20000000"
    by (simp add: s0_def initial_state_def dura60fps_def)
  have tgt: "pace_target s0 20000000 = 16666668"
    by (simp add: s0_def initial_state_def pace_target_def dura60fps_def milliseconds_def)
  have adv: "advance_index 512 0 60 8192 = Some 800"
    by (simp add: advance_index_def wave_length_60 const_defs move_index_def dist_forward_def
        advance_index_loop.simps)
  have res: "step s0 (silent_in 20000000)
      = Some \<lparr>wave_smoother = 1, fft_sync = False, xcorr_sync = False,
               now_time = 20000000, next_time = 33333336, frame_id = 1,
               writer = 512, reader_l = 800, reader_r = 800, freq_l = 60, freq_r = 60\<rparr>"
    by (simp add: step_def process_cycle_def s0_def initial_state_def silent_in_def
        dura60fps_def milliseconds_def Let_def adv move_index_def ABL_def TBL_def ABN_def)
  from step_pacing[OF h1 h2 h3 h4 h5]
  have "\<forall>n\<le>length ins. \<exists>s'. steps s0 (take n ins) = Some s'
      \<and> frame_id s' = frame_id s0 + int n"
    by (rule conjunct2)
  then have "2 \<le> length ins \<longrightarrow> (\<exists>s'. steps s0 (take 2 ins) = Some s'
      \<and> frame_id s' = frame_id s0 + int 2)"
    by (rule spec)
  moreover have "2 \<le> length ins"
    by (simp add: ins_def)
  ultimately have "\<exists>s'. steps s0 (take 2 ins) = Some s'
      \<and> frame_id s' = frame_id s0 + int 2"
    by (rule mp)
  moreover have "frame_id s0 + int 2 = 2"
    by (simp add: s0_def initial_state_def)
  ultimately have "\<exists>s'. steps s0 (take 2 ins) = Some s' \<and> frame_id s' = 2"
    by (simp only:)
  with h1 h2 tgt res show ?thesis
    unfolding s0_def ins_def by simp
qed

text \<open>
  The claim as written (a cycle runs when the clock has reached the target; one frame per
  call when the clock moves one period per call) fails at the first call after
  construction when the clock reads exactly one period: the reading equals the target,
  the comparison \<^verbatim>\<open>now_time > next_time\<close> is strict, and no frame is emitted.
\<close>

theorem step_at_target_counterexample:
  "next_time (initial_state \<lparr>ao_xcorr_sync = False, ao_fft_sync = False, ao_wave_smooth = 1\<rparr>)
     \<le> clock_now (silent_in dura60fps)
   \<and> clock_now (silent_in dura60fps) = 0 + dura60fps
   \<and> step (initial_state \<lparr>ao_xcorr_sync = False, ao_fft_sync = False, ao_wave_smooth = 1\<rparr>)
        (silent_in dura60fps)
      = Some \<lparr>wave_smoother = 1, fft_sync = False, xcorr_sync = False,
               now_time = dura60fps, next_time = dura60fps, frame_id = 0,
               writer = 512, reader_l = 0, reader_r = 0, freq_l = 60, freq_r = 60\<rparr>"
  by (simp add: step_def initial_state_def silent_in_def dura60fps_def milliseconds_def
      Let_def move_index_def ABL_def TBL_def ABN_def)


text \<open>
  Claim C7. When the stream's sample rate is not 48000 or its maximum chunk size is less
  than \<open>ABL\<close>, the constructor ends in \<open>exit(1)\<close> and no call of \<open>step\<close> ever runs. With a
  conforming stream the constructor returns the initial state (frame counter 0), no
  later call of \<open>step\<close> exits, and with well-formed inputs every call returns.
\<close>

theorem constructor_validates_stream:
  "(sample_rate st \<noteq> 48000 \<or> max_buff_size st < ABL
      \<longrightarrow> AudioProcess st ao = Inl (Exit 1) \<and> run st ao ins = Exited 1)
   \<and> (sample_rate st = 48000 \<and> ABL \<le> max_buff_size st
      \<longrightarrow> (\<exists>s. AudioProcess st ao = Inr s \<and> state_ok s \<and> frame_id s = 0)
        \<and> (\<forall>code. run st ao ins \<noteq> Exited code)
        \<and> ((\<forall>inp\<in>set ins. input_ok inp) \<longrightarrow> (\<exists>s'. run st ao ins = Running s')))"
proof (intro conjI impI)
  assume "sample_rate st \<noteq> 48000 \<or> max_buff_size st < ABL"
  then show "AudioProcess st ao = Inl (Exit 1)" "run st ao ins = Exited 1"
    by (auto simp: AudioProcess_def run_def)
next
  assume ok: "sample_rate st = 48000 \<and> ABL \<le> max_buff_size st"
  then have c: "AudioProcess st ao = Inr (initial_state ao)"
    by (simp add: AudioProcess_def)
  then show "\<exists>s. AudioProcess st ao = Inr s \<and> state_ok s \<and> frame_id s = 0"
    by (simp add: initial_state_ok) (simp add: initial_state_def)
  show "\<forall>code. run st ao ins \<noteq> Exited code"
    by (simp add: run_def c split: option.split)
  assume "\<forall>inp\<in>set ins. input_ok inp"
  from steps_ok[OF initial_state_ok this, of ao]
  show "\<exists>s'. run st ao ins = Running s'"
    by (auto simp: run_def c)
qed

theorem constructor_validates_stream_witness:
  "sample_rate \<lparr>sample_rate = 44100, max_buff_size = 512\<rparr> \<noteq> 48000
   \<and> AudioProcess \<lparr>sample_rate = 44100, max_buff_size = 512\<rparr>
        \<lparr>ao_xcorr_sync = True, ao_fft_sync = False, ao_wave_smooth = 1\<rparr> = Inl (Exit 1)
   \<and> run \<lparr>sample_rate = 44100, max_buff_size = 512\<rparr>
        \<lparr>ao_xcorr_sync = True, ao_fft_sync = False, ao_wave_smooth = 1\<rparr>
        [silent_in 20000000] = Exited 1
   \<and> max_buff_size \<lparr>sample_rate = 48000, max_buff_size = 256\<rparr> < ABL
   \<and> AudioProcess \<lparr>sample_rate = 48000, max_buff_size = 256\<rparr>
        \<lparr>ao_xcorr_sync = True, ao_fft_sync = False, ao_wave_smooth = 1\<rparr> = Inl (Exit 1)
   \<and> sample_rate \<lparr>sample_rate = 48000, max_buff_size = 512\<rparr> = 48000
   \<and> ABL \<le> max_buff_size \<lparr>sample_rate = 48000, max_buff_size = 512\<rparr>
   \<and> input_ok (silent_in 20000000)
   \<and> (\<exists>s'. run \<lparr>sample_rate = 48000, max_buff_size = 512\<rparr>
              \<lparr>ao_xcorr_sync = True, ao_fft_sync = False, ao_wave_smooth = 1\<rparr>
              [silent_in 20000000] = Running s')"
  using constructor_validates_stream
    [of "\<lparr>sample_rate = 44100, max_buff_size = 512\<rparr>"
        "\<lparr>ao_xcorr_sync = True, ao_fft_sync = False, ao_wave_smooth = 1\<rparr>"
        "[silent_in 20000000]"]
    constructor_validates_stream
    [of "\<lparr>sample_rate = 48000, max_buff_size = 256\<rparr>"
        "\<lparr>ao_xcorr_sync = True, ao_fft_sync = False, ao_wave_smooth = 1\<rparr>"
        "[silent_in 20000000]"]
    constructor_validates_stream
    [of "\<lparr>sample_rate = 48000, max_buff_size = 512\<rparr>"
        "\<lparr>ao_xcorr_sync = True, ao_fft_sync = False, ao_wave_smooth = 1\<rparr>"
        "[silent_in 20000000]"]
  by (simp add: ABL_def input_ok_silent)

text \<open>
  Without the cross-correlation synchroniser the cursor that a cycle emits from is the
  one \<open>advance_index\<close> returns, at least \<open>VL\<close> steps behind the write cursor.
\<close>

lemma process_cycle_safe_without_xcorr:
  assumes "state_ok s" "\<not> xcorr_sync s" "process_cycle s inp = Some s'"
  shows "VL \<le> dist_forward (reader_l s') (writer s') TBL
       \<and> VL \<le> dist_forward (reader_r s') (writer s') TBL"
proof -
  from assms(1) have rng: "0 \<le> writer s" "writer s < TBL" "0 \<le> reader_l s" "reader_l s < TBL"
    "0 \<le> reader_r s" "reader_r s < TBL" "valid_freq (freq_l s)" "valid_freq (freq_r s)"
    by (simp_all add: state_ok_def)
  from advance_index_ok[OF rng(1,2,3,4,7)]
  obtain rl where rl: "advance_index (writer s) (reader_l s) (freq_l s) TBL = Some rl"
    "VL \<le> dist_forward rl (writer s) TBL"
    by blast
  from advance_index_ok[OF rng(1,2,5,6,8)]
  obtain rr where rr: "advance_index (writer s) (reader_r s) (freq_r s) TBL = Some rr"
    "VL \<le> dist_forward rr (writer s) TBL"
    by blast
  from assms(2,3) rl rr show ?thesis
    by (auto simp: process_cycle_def Let_def)
qed

lemma xcorr_silent:
  "cross_correlation_sync w r 350 (\<lambda>_. Fin 0) = move_index r (- 175) 8192"
proof -
  have "HISTORY_SEARCH_GRANULARITY \<le> 350"
    by (simp add: const_defs)
  from cross_correlation_sync_equal_scores[OF this, of w r] show ?thesis
    by (simp add: cdiv_def const_defs)
qed

lemmas eval_defs =
  run_def AudioProcess_def initial_state_def silent_in_def step_def process_cycle_def
  Let_def dura60fps_def milliseconds_def const_defs xcorr_silent
  advance_index_def wave_length_60 advance_index_loop.simps move_index_def dist_forward_def

text \<open>
  Claim C1 fails on the code when the cross-correlation synchroniser is enabled.
  \<open>advance_index\<close> leaves the read cursor at least \<open>VL\<close> steps behind the write cursor, and
  then \<open>cross_correlation_sync\<close> moves it by up to 175 steps back or 170 steps forward
  without looking at the write cursor (its parameter \<open>w\<close> is never read).
  The run below is a freshly constructed object with \<open>xcorr_sync\<close> on and \<open>fft_sync\<close> off,
  fed silence, with \<open>step\<close> called every 10666667 ns (one chunk of 512 frames at 48000 Hz).
  The eighth call runs a cycle: \<open>advance_index\<close> moves the cursor from 3300 to 4100,
  4 steps past the write cursor 4096 and so 8188 steps behind it; the scan starts at
  \<open>4100 - 175 = 3925\<close>, all scores are equal, and the cycle emits the \<open>VL\<close> samples from
  3925 on, which run across the write cursor after 171 samples.
\<close>

theorem xcorr_reader_crosses_writer:
  "run \<lparr>sample_rate = 48000, max_buff_size = 512\<rparr>
       \<lparr>ao_xcorr_sync = True, ao_fft_sync = False, ao_wave_smooth = 1\<rparr>
       (map silent_in [1000000000, 1010666667, 1021333334, 1032000001,
                       1042666668, 1053333335, 1064000002])
     = Running \<lparr>wave_smoother = 1, fft_sync = False, xcorr_sync = True,
                 now_time = 1064000002, next_time = 1065666672, frame_id = 4,
                 writer = 3584, reader_l = 3300, reader_r = 3300, freq_l = 60, freq_r = 60\<rparr>
   \<and> run \<lparr>sample_rate = 48000, max_buff_size = 512\<rparr>
       \<lparr>ao_xcorr_sync = True, ao_fft_sync = False, ao_wave_smooth = 1\<rparr>
       (map silent_in [1000000000, 1010666667, 1021333334, 1032000001,
                       1042666668, 1053333335, 1064000002, 1074666669])
     = Running \<lparr>wave_smoother = 1, fft_sync = False, xcorr_sync = True,
                 now_time = 1074666669, next_time = 1082333340, frame_id = 5,
                 writer = 4096, reader_l = 3925, reader_r = 3925, freq_l = 60, freq_r = 60\<rparr>
   \<and> dist_forward 3925 4096 TBL = 171 \<and> 171 < VL"
  by (simp add: eval_defs)

subsection \<open>Spectral peak\<close>

lemma is_peak_keep:
  assumes "is_peak mag i k" "1 \<le> i" "\<not> fl_gt (mag i) (if k = 0 then Fin 0 else mag k)"
  shows "is_peak mag (i + 1) k"
  unfolding is_peak_def
proof (intro conjI allI impI)
  fix j assume j: "1 \<le> j \<and> j < i + 1"
  show "\<not> fl_gt (mag j) (if k = 0 then Fin 0 else mag k)"
  proof (cases "j = i")
    case True
    with assms(3) show ?thesis by simp
  next
    case False
    with j have "1 \<le> j \<and> j < i" by simp
    with assms(1) show ?thesis by (simp add: is_peak_def)
  qed
qed (use assms(1) in \<open>auto simp: is_peak_def\<close>)

lemma is_peak_new:
  assumes "is_peak mag i k" "1 \<le> i" "fl_gt (mag i) (if k = 0 then Fin 0 else mag k)"
  shows "is_peak mag (i + 1) i"
proof -
  let ?m = "if k = 0 then Fin 0 else mag k"
  have old: "\<And>j. 1 \<le> j \<Longrightarrow> j < i \<Longrightarrow> \<not> fl_gt (mag j) ?m"
    using assms(1) by (simp add: is_peak_def)
  have below: "mag j = NaN \<or> fl_gt (mag i) (mag j)" if "1 \<le> j" "j < i" for j
    using fl_gt_above[OF assms(3) old[OF that]] .
  have pos: "fl_gt (mag i) (Fin 0)"
  proof (cases "k = 0")
    case True
    with assms(3) show ?thesis by simp
  next
    case False
    with assms(1) have "fl_gt (mag k) (Fin 0)" by (simp add: is_peak_def)
    with assms(3) False show ?thesis by (auto intro: fl_gt_trans)
  qed
  have none_above: "\<not> fl_gt (mag j) (mag i)" if "1 \<le> j" "j < i + 1" for j
  proof (cases "j = i")
    case True
    then show ?thesis by (simp add: fl_gt_irrefl)
  next
    case False
    with that have "j < i" by simp
    from below[OF that(1) this] show ?thesis
      by (auto simp: fl_gt_NaN dest: fl_gt_asym)
  qed
  have "i \<noteq> 0"
    using assms(2) by simp
  with assms(2) pos below none_above show ?thesis
    by (simp add: is_peak_def)
qed

lemma max_bin_loop_peak:
  assumes "1 \<le> i" "i \<le> 100" "is_peak mag i k" "mx = (if k = 0 then Fin 0 else mag k)"
  shows "is_peak mag 100 (max_bin_loop mag i mx k)"
  using assms
proof (induction mag i mx k rule: max_bin_loop.induct)
  case (1 mag i mx max_i)
  show ?case
  proof (cases "i < 100")
    case False
    with 1 have "i = 100" by simp
    with 1 False show ?thesis
      by (subst max_bin_loop.simps) simp
  next
    case True
    show ?thesis
    proof (cases "fl_gt (mag i) mx")
      case gt: True
      have p: "is_peak mag (i + 1) i"
        using is_peak_new[OF "1.prems"(3,1)] gt "1.prems"(4) by simp
      have "i \<noteq> 0"
        using "1.prems"(1) by simp
      then have "is_peak mag 100 (max_bin_loop mag (i + 1) (mag i) i)"
        using "1.IH"(1)[OF True gt _ _ p] "1.prems"(1) True by simp
      with True gt show ?thesis
        by (subst max_bin_loop.simps) simp
    next
      case ngt: False
      have p: "is_peak mag (i + 1) max_i"
        using is_peak_keep[OF "1.prems"(3,1)] ngt "1.prems"(4) by simp
      have "is_peak mag 100 (max_bin_loop mag (i + 1) mx max_i)"
        using "1.IH"(2)[OF True ngt _ _ p "1.prems"(4)] "1.prems"(1) True by simp
      with True ngt show ?thesis
        by (subst max_bin_loop.simps) simp
    qed
  qed
qed

lemma max_bin_peak: "is_peak mag 100 (max_bin mag)"
proof -
  have "is_peak mag 1 0"
    by (auto simp: is_peak_def)
  from max_bin_loop_peak[OF _ _ this, of "Fin 0"] show ?thesis
    by (simp add: max_bin_def fl_round_0)
qed


lemma fl_max_floor:
  "fl_max x (Fin 10) = NaN \<longleftrightarrow> x = NaN"
  "fl_max x (Fin 10) = NaN \<or> fl_max x (Fin 10) = PInf
     \<or> (\<exists>y. fl_max x (Fin 10) = Fin y \<and> 10 \<le> y)"
  by (cases x; simp add: fl_max_def fl_lt_def)+

lemma max_frequency_unfold:
  "max_frequency mag
     = fl_max (interpolated_hz mag (if max_bin mag = 0 then 1 else max_bin mag)) (Fin 10)"
  by (simp add: max_frequency_def Let_def fl_round_10)

text \<open>
  Claim C8, as amended. For every array of bin magnitudes, \<open>max_frequency\<close> selects the
  first bin of greatest magnitude among the bins 1 to 99 (bin 0 is not examined; the
  index is 0 when no magnitude is greater than 0), takes bin 1 in place of index 0,
  refines the bin by the parabolic interpolation and converts it to Hz
  (\<open>interpolated_hz\<close>), and returns the larger of that value and 10. The result is NaN
  exactly when the interpolated value is NaN; otherwise it is at least 10 Hz.
\<close>

theorem max_frequency_peak_and_floor:
  "is_peak mag 100 (max_bin mag)
   \<and> max_frequency mag
       = fl_max (interpolated_hz mag (if max_bin mag = 0 then 1 else max_bin mag)) (Fin 10)
   \<and> (max_frequency mag = NaN
        \<longleftrightarrow> interpolated_hz mag (if max_bin mag = 0 then 1 else max_bin mag) = NaN)
   \<and> (max_frequency mag = NaN \<or> max_frequency mag = PInf
        \<or> (\<exists>y. max_frequency mag = Fin y \<and> 10 \<le> y))"
  unfolding max_frequency_unfold
  using max_bin_peak[of mag] fl_max_floor by blast

lemma max_bin_peak10: "max_bin mags_peak10 = 10"
  by (simp add: max_bin_def max_bin_loop.simps mags_peak10_def fl_round_0)

lemma interpolated_hz_peak10: "interpolated_hz mags_peak10 10 = Fin (3878431 / 65536)"
  by (simp add: interpolated_hz_def mags_peak10_def fl_sub_def SRF_def SR_def FFTLEN_def
      TBL_def ABL_def ABN_def f32_eval)

theorem max_frequency_peak_and_floor_witness:
  "max_bin mags_peak10 = 10
   \<and> fl_gt (mags_peak10 10) (Fin 0)
   \<and> \<not> fl_gt (mags_peak10 11) (mags_peak10 10)
   \<and> interpolated_hz mags_peak10 10 = Fin (3878431 / 65536)
   \<and> max_frequency mags_peak10 = Fin (3878431 / 65536)
   \<and> (10::real) \<le> 3878431 / 65536"
proof -
  note t = max_frequency_peak_and_floor[of mags_peak10]
  from t have "max_frequency mags_peak10
      = fl_max (interpolated_hz mags_peak10 (if max_bin mags_peak10 = 0 then 1 else max_bin mags_peak10))
          (Fin 10)"
    by blast
  then have mf: "max_frequency mags_peak10 = Fin (3878431 / 65536)"
    by (simp add: max_bin_peak10 interpolated_hz_peak10 fl_max_def fl_lt_def)
  from t have "is_peak mags_peak10 100 10"
    by (simp add: max_bin_peak10)
  then have "fl_gt (mags_peak10 10) (Fin 0)" "\<not> fl_gt (mags_peak10 11) (mags_peak10 10)"
    by (simp_all add: is_peak_def)
  with mf show ?thesis
    by (simp add: max_bin_peak10 interpolated_hz_peak10)
qed

lemma max_bin_faint50: "max_bin mags_faint50 = 50"
  by (simp add: max_bin_def max_bin_loop.simps mags_faint50_def fl_round_0)

lemma interpolated_hz_faint50: "interpolated_hz mags_faint50 50 = NaN"
  by (simp add: interpolated_hz_def mags_faint50_def fl_sub_def SRF_def SR_def FFTLEN_def
      TBL_def ABL_def ABN_def f32_eval)

lemma faint_literal: "fl_round (1 / 2000) = Fin (8589935 / 17179869184)"
  by (simp add: f32_eval)

text \<open>
  The claim as written fails in two places. The result is not always at least 10 Hz:
  when the only non-zero bin is bin 50 with magnitude \<open>0.0005f\<close>, the divisor
  \<^verbatim>\<open>a - 2 * b + g + 0.001f\<close> and the dividend are both 0, the offset is NaN, and
  \<open>std::max\<close> returns its first argument, NaN. And the bin of greatest magnitude among
  the first 100 is not selected when it is bin 0: the scan starts at bin 1.
\<close>

theorem max_frequency_floor_counterexample:
  "mags_faint50 50 = fl_round (1 / 2000)
   \<and> max_bin mags_faint50 = 50
   \<and> max_frequency mags_faint50 = NaN
   \<and> \<not> fl_gt (max_frequency mags_faint50) (Fin 10)
   \<and> max_frequency mags_faint50 \<noteq> Fin 10
   \<and> fl_gt (mags_dc 0) (mags_dc 2)
   \<and> max_bin mags_dc = 2"
proof -
  have "max_frequency mags_faint50 = NaN"
    by (simp add: max_frequency_unfold max_bin_faint50 interpolated_hz_faint50 fl_max_def fl_lt_def)
  moreover have "max_bin mags_dc = 2"
    by (simp add: max_bin_def max_bin_loop.simps mags_dc_def fl_round_0)
  ultimately show ?thesis
    by (simp add: max_bin_faint50 faint_literal) (simp add: mags_faint50_def mags_dc_def)
qed

end
